theory Spec2Isabelle
  imports Complex_Main
begin

section \<open>The marching triangulator of \<open>phoebe/algorithms/mrch.c\<close>\<close>

text \<open>
  The C file discretises an equipotential surface into triangles.  The embedding below
  follows the file function by function and keeps its names.

  Numbers: a C \<open>double\<close> is read as a real number and the library functions
  \<open>sqrt\<close>, \<open>sin\<close>, \<open>cos\<close>, \<open>atan2\<close>, \<open>fmod\<close>, \<open>trunc\<close> and \<open>pow\<close> as their
  mathematical counterparts; rounding, NaN and the infinities are outside the model.  A C
  \<open>int\<close> is read as an unbounded integer (a size or an index as a natural number
  where the code keeps it non-negative).  The literal \<open>1e-12\<close> is \<open>1 / 10 ^ 12\<close> and
  the macro \<open>PI\<close> is the decimal fraction the file defines, not the number \<open>pi\<close>.
\<close>

subsection \<open>Mesh vertices and vertex arrays\<close>

type_synonym vec3 = "real \<times> real \<times> real"

record MeshVertex =
  r :: vec3
  n :: vec3
  t1 :: vec3
  t2 :: vec3
  invM :: "real list"

record Triangle =
  v0 :: MeshVertex
  v1 :: MeshVertex
  v2 :: MeshVertex

text \<open>
  A \<open>VertexArray\<close> is a size and a heap block of that many cells; it is modelled as the
  list of its cells, the size being the length.  \<open>vertex_array_new\<close> is the empty list
  and \<open>vertex_array_append\<close> appends one cell; a \<open>TriangleArray\<close> likewise.
\<close>

definition vertex_array_new :: "'a list" where
  "vertex_array_new = []"

definition vertex_array_append :: "'a list \<Rightarrow> 'a \<Rightarrow> 'a list" where
  "vertex_array_append va v = va @ [v]"

definition triangle_array_new :: "Triangle list" where
  "triangle_array_new = []"

definition triangle_array_append :: "Triangle list \<Rightarrow> Triangle \<Rightarrow> Triangle list" where
  "triangle_array_append ta t = ta @ [t]"

text \<open>
  \<open>realloc\<close> keeps the cells that fit into the new block and leaves any new cell
  indeterminate; \<open>g\<close> stands for that indeterminate content.
\<close>

definition realloc_cells :: "'a \<Rightarrow> 'a list \<Rightarrow> nat \<Rightarrow> 'a list" where
  "realloc_cells g xs k = take k xs @ replicate (k - length xs) g"

text \<open>
  The copying loops of \<open>vertex_array_drop_and_stack\<close> all have the shape
  \<open>for (i = lo; i < hi; i++) dst[i + a] = src[i - b]\<close>; the index arithmetic of each loop
  is given by the two functions \<open>di\<close> and \<open>si\<close>.
\<close>

definition copy_loop :: "(nat \<Rightarrow> nat) \<Rightarrow> (nat \<Rightarrow> nat) \<Rightarrow> nat \<Rightarrow> nat \<Rightarrow> 'a list \<Rightarrow> 'a list \<Rightarrow> 'a list" where
  "copy_loop di si lo hi src dst = fold (\<lambda>i d. d[di i := src ! si i]) [lo..<hi] dst"

text \<open>
  \<open>vertex_array_drop_and_stack(P, Pi, idx)\<close>.  \<open>Pstart\<close> and \<open>Pend\<close> stay \<open>NULL\<close>
  (here: the empty list, never read) unless their guards hold.  The caller passes
  \<open>0 \<le> idx < P->size\<close>; for a larger \<open>idx\<close> the C code reads and writes outside the
  blocks, which is the result \<open>None\<close>.
\<close>

definition vertex_array_drop_and_stack :: "'a \<Rightarrow> 'a list \<Rightarrow> 'a list \<Rightarrow> nat \<Rightarrow> 'a list option" where
  "vertex_array_drop_and_stack g Pa Pi idx =
     (if length Pa \<le> idx then None
      else
        let Pstart = (if 0 < idx
                      then copy_loop (\<lambda>i. i) (\<lambda>i. i) 0 idx Pa (realloc_cells g [] idx)
                      else []);
            Pend = (if idx < length Pa - 1
                    then copy_loop (\<lambda>i. i - idx - 1) (\<lambda>i. i) (idx + 1) (length Pa) Pa
                           (realloc_cells g [] (length Pa - idx - 1))
                    else []);
            size' = length Pa + length Pi - 1;
            P1 = realloc_cells g Pa size'
        in if size' = 0 then Some P1
           else
             let P2 = (if 0 < idx
                       then copy_loop (\<lambda>i. i) (\<lambda>i. i) 0 (length Pstart) Pstart P1
                       else P1);
                 P3 = (if 0 < length Pi
                       then copy_loop (\<lambda>i. i + idx) (\<lambda>i. i) 0 (length Pi) Pi P2
                       else P2);
                 P4 = (if idx < size'
                       then copy_loop (\<lambda>i. i) (\<lambda>i. i - idx - length Pi) (idx + length Pi) size' Pend P3
                       else P3)
             in Some P4)"

subsection \<open>Pivot selection\<close>

text \<open>
  \<open>argmin(array, length)\<close>: \<open>min\<close> starts at 0 and \<open>i\<close> runs from 1 to \<open>length - 1\<close>.
  \<open>argmin_loop\<close> is the \<open>for\<close> loop from the index \<open>i\<close> on, with the current \<open>min\<close>.
\<close>

function argmin_loop :: "real list \<Rightarrow> nat \<Rightarrow> nat \<Rightarrow> nat \<Rightarrow> nat" where
  "argmin_loop array len mn i =
     (if i < len
      then argmin_loop array len (if array ! mn - array ! i > 1 / 10 ^ 6 then i else mn) (i + 1)
      else mn)"
  by pat_completeness auto
termination
  by (relation "measure (\<lambda>(array, len, mn, i). len - i)") auto

declare argmin_loop.simps [simp del]

definition argmin :: "real list \<Rightarrow> nat \<Rightarrow> nat" where
  "argmin array len = argmin_loop array len 0 1"

subsection \<open>The potentials\<close>

text \<open>
  Each potential is a function of the point and of the parameter block \<open>p\<close>.  \<open>pow\<close>
  with a negative fractional exponent is \<open>powr\<close> (the base is a sum of squares) and
  with exponent 2 or 3 a power.
\<close>

fun sphere :: "vec3 \<Rightarrow> real list \<Rightarrow> real" where
  "sphere (x, y, z) q = x*x + y*y + z*z - q!0 * q!0"

fun dspheredx :: "vec3 \<Rightarrow> real list \<Rightarrow> real" where
  "dspheredx (x, y, z) q = 2*x"

fun dspheredy :: "vec3 \<Rightarrow> real list \<Rightarrow> real" where
  "dspheredy (x, y, z) q = 2*y"

fun dspheredz :: "vec3 \<Rightarrow> real list \<Rightarrow> real" where
  "dspheredz (x, y, z) q = 2*z"

fun binary_roche :: "vec3 \<Rightarrow> real list \<Rightarrow> real" where
  "binary_roche (x, y, z) q =
     1 / sqrt (x*x + y*y + z*z) +
     q!1 * (1 / sqrt ((x - q!0)*(x - q!0) + y*y + z*z) - x / q!0 / q!0) +
     0.5 * q!2 * q!2 * (1 + q!1) * (x*x + y*y) - q!3"

fun dbinary_rochedx :: "vec3 \<Rightarrow> real list \<Rightarrow> real" where
  "dbinary_rochedx (x, y, z) q =
     - x * (x*x + y*y + z*z) powr (-1.5) -
     q!1 * (x - q!0) * ((x - q!0)*(x - q!0) + y*y + z*z) powr (-1.5) -
     q!1 / q!0 / q!0 + q!2 * q!2 * (1 + q!1) * x"

fun dbinary_rochedy :: "vec3 \<Rightarrow> real list \<Rightarrow> real" where
  "dbinary_rochedy (x, y, z) q =
     - y * (x*x + y*y + z*z) powr (-1.5) -
     q!1 * y * ((x - q!0)*(x - q!0) + y*y + z*z) powr (-1.5) +
     q!2 * q!2 * (1 + q!1) * y"

fun dbinary_rochedz :: "vec3 \<Rightarrow> real list \<Rightarrow> real" where
  "dbinary_rochedz (x, y, z) q =
     - z * (x*x + y*y + z*z) powr (-1.5) -
     q!1 * z * ((x - q!0)*(x - q!0) + y*y + z*z) powr (-1.5)"

fun misaligned_binary_roche :: "vec3 \<Rightarrow> real list \<Rightarrow> real" where
  "misaligned_binary_roche (x, y, z) q =
     (let delta = (1 - (cos (q!4))\<^sup>2 * (sin (q!3))\<^sup>2) * x * x +
                  (1 - (sin (q!4))\<^sup>2 * (sin (q!3))\<^sup>2) * y * y +
                  (sin (q!3))\<^sup>2 * z * z -
                  (sin (q!3))\<^sup>2 * sin (2 * q!4) * x * y -
                  sin (2 * q!3) * cos (q!4) * x * z -
                  sin (2 * q!3) * sin (q!4) * y * z
      in 1 / sqrt (x*x + y*y + z*z) +
         q!1 * (1 / sqrt ((x - q!0)*(x - q!0) + y*y + z*z) - x / q!0 / q!0) +
         0.5 * q!2 * q!2 * (1 + q!1) * delta - q!5)"

fun dmisaligned_binary_rochedx :: "vec3 \<Rightarrow> real list \<Rightarrow> real" where
  "dmisaligned_binary_rochedx (x, y, z) q =
     (let delta = 2 * (1 - (cos (q!4))\<^sup>2 * (sin (q!3))\<^sup>2) * x -
                  (sin (q!3))\<^sup>2 * sin (2 * q!4) * y -
                  sin (2 * q!3) * cos (q!4) * z
      in - x * (x*x + y*y + z*z) powr (-1.5) -
         q!1 * (x - q!0) * ((x - q!0)*(x - q!0) + y*y + z*z) powr (-1.5) -
         q!1 / q!0 / q!0 + 0.5 * q!2 * q!2 * (1 + q!1) * delta)"

fun dmisaligned_binary_rochedy :: "vec3 \<Rightarrow> real list \<Rightarrow> real" where
  "dmisaligned_binary_rochedy (x, y, z) q =
     (let delta = 2 * (1 - (sin (q!4))\<^sup>2 * (sin (q!3))\<^sup>2) * y -
                  (sin (q!3))\<^sup>2 * sin (2 * q!4) * x -
                  sin (2 * q!3) * sin (q!4) * z
      in - y * (x*x + y*y + z*z) powr (-1.5) -
         q!1 * y * ((x - q!0)*(x - q!0) + y*y + z*z) powr (-1.5) +
         0.5 * q!2 * q!2 * (1 + q!1) * delta)"

fun dmisaligned_binary_rochedz :: "vec3 \<Rightarrow> real list \<Rightarrow> real" where
  "dmisaligned_binary_rochedz (x, y, z) q =
     (let delta = 2 * (sin (q!3))\<^sup>2 * z -
                  sin (2 * q!3) * cos (q!4) * x -
                  sin (2 * q!3) * sin (q!4) * y
      in - z * (x*x + y*y + z*z) powr (-1.5) -
         q!1 * z * ((x - q!0)*(x - q!0) + y*y + z*z) powr (-1.5) +
         0.5 * q!2 * q!2 * (1 + q!1) * delta)"

fun rotate_roche :: "vec3 \<Rightarrow> real list \<Rightarrow> real" where
  "rotate_roche (x, y, z) q =
     (let omega = q!0 * 0.54433105395181736;
          rp = sqrt (x*x + y*y + z*z)
      in 1 / q!1 - 1 / rp - 0.5 * omega * omega * (x*x + y*y))"

fun drotate_rochedx :: "vec3 \<Rightarrow> real list \<Rightarrow> real" where
  "drotate_rochedx (x, y, z) q =
     (let omega = q!0 * 0.54433105395181736
      in x * (x*x + y*y + z*z) powr (-1.5) - omega * omega * x)"

fun drotate_rochedy :: "vec3 \<Rightarrow> real list \<Rightarrow> real" where
  "drotate_rochedy (x, y, z) q =
     (let omega = q!0 * 0.54433105395181736
      in y * (x*x + y*y + z*z) powr (-1.5) - omega * omega * y)"

fun drotate_rochedz :: "vec3 \<Rightarrow> real list \<Rightarrow> real" where
  "drotate_rochedz (x, y, z) q = z * (x*x + y*y + z*z) powr (-1.5)"

fun torus :: "vec3 \<Rightarrow> real list \<Rightarrow> real" where
  "torus (x, y, z) q =
     q!1 * q!1 - q!0 * q!0 + 2 * q!0 * sqrt (x*x + y*y) - x*x - y*y - z*z"

fun dtorusdx :: "vec3 \<Rightarrow> real list \<Rightarrow> real" where
  "dtorusdx (x, y, z) q = 2 * q!0 * x * (x*x + y*y) powr (-0.5) - 2*x"

fun dtorusdy :: "vec3 \<Rightarrow> real list \<Rightarrow> real" where
  "dtorusdy (x, y, z) q = 2 * q!0 * y * (x*x + y*y) powr (-0.5) - 2*y"

fun dtorusdz :: "vec3 \<Rightarrow> real list \<Rightarrow> real" where
  "dtorusdz (x, y, z) q = - 2*z"

fun heart :: "vec3 \<Rightarrow> real list \<Rightarrow> real" where
  "heart (x, y, z) q =
     (x*x + 9/4*y*y + z*z - 1) ^ 3 - x*x*z*z*z - 9/80*y*y*z*z*z"

fun dheartdx :: "vec3 \<Rightarrow> real list \<Rightarrow> real" where
  "dheartdx (x, y, z) q = 3 * (x*x + 9/4*y*y + z*z - 1)\<^sup>2 * 2 * x - 2*x*z*z*z"

fun dheartdy :: "vec3 \<Rightarrow> real list \<Rightarrow> real" where
  "dheartdy (x, y, z) q = 3 * (x*x + 9/4*y*y + z*z - 1)\<^sup>2 * 9/2 * y - 9/40*y*z*z*z"

fun dheartdz :: "vec3 \<Rightarrow> real list \<Rightarrow> real" where
  "dheartdz (x, y, z) q =
     3 * (x*x + 9/4*y*y + z*z - 1)\<^sup>2 * 2 * z - 3*x*x*z*z - 27/80*y*y*z*z"

subsection \<open>The potential descriptor\<close>

text \<open>
  \<open>PotentialParameters\<close> holds the parameter block and four function pointers.
  \<open>initialize_pars\<close> allocates the struct with \<open>malloc\<close> and assigns the pointers only
  in the branch of a known name, so a pointer is \<open>Some f\<close> once assigned and \<open>None\<close>
  while it holds whatever \<open>malloc\<close> left there.  \<open>!strcmp(a, b)\<close> is equality of the
  two strings.
\<close>

type_synonym potfun = "vec3 \<Rightarrow> real list \<Rightarrow> real"

record PotentialParameters =
  p :: "real list"
  pot :: "potfun option"
  dx :: "potfun option"
  dy :: "potfun option"
  dz :: "potfun option"

definition initialize_pars :: "string \<Rightarrow> real list \<Rightarrow> PotentialParameters" where
  "initialize_pars potential args =
     (let pp = \<lparr>p = args, pot = None, dx = None, dy = None, dz = None\<rparr>
      in if potential = ''Sphere''
         then pp\<lparr>pot := Some sphere, dx := Some dspheredx, dy := Some dspheredy,
                 dz := Some dspheredz\<rparr>
         else if potential = ''BinaryRoche''
         then pp\<lparr>pot := Some binary_roche, dx := Some dbinary_rochedx,
                 dy := Some dbinary_rochedy, dz := Some dbinary_rochedz\<rparr>
         else if potential = ''MisalignedBinaryRoche''
         then pp\<lparr>pot := Some misaligned_binary_roche, dx := Some dmisaligned_binary_rochedx,
                 dy := Some dmisaligned_binary_rochedy, dz := Some dmisaligned_binary_rochedz\<rparr>
         else if potential = ''RotateRoche''
         then pp\<lparr>pot := Some rotate_roche, dx := Some drotate_rochedx,
                 dy := Some drotate_rochedy, dz := Some drotate_rochedz\<rparr>
         else if potential = ''Torus''
         then pp\<lparr>pot := Some torus, dx := Some dtorusdx, dy := Some dtorusdy,
                 dz := Some dtorusdz\<rparr>
         else if potential = ''Heart''
         then pp\<lparr>pot := Some heart, dx := Some dheartdx, dy := Some dheartdy,
                 dz := Some dheartdz\<rparr>
         else pp)"

text \<open>A call through a pointer of the descriptor, \<open>pp->dx(r, pp->p)\<close>.\<close>

definition call :: "potfun option \<Rightarrow> vec3 \<Rightarrow> real list \<Rightarrow> real" where
  "call f = the f"

subsection \<open>Library functions and constants\<close>

definition PI :: real where
  "PI = 3.14159265359"

text \<open>\<open>trunc\<close> rounds towards zero; the conversion to \<open>int\<close> that follows it in the
  code is then exact.  \<open>fmod x y\<close> is \<open>x - y * trunc (x / y)\<close>, with the sign of \<open>x\<close>.
  \<open>atan2 y x\<close> is the angle of the point \<open>(x, y)\<close>, in \<open>(-pi, pi]\<close>.\<close>

definition trunc :: "real \<Rightarrow> int" where
  "trunc x = (if 0 \<le> x then \<lfloor>x\<rfloor> else \<lceil>x\<rceil>)"

definition fmod :: "real \<Rightarrow> real \<Rightarrow> real" where
  "fmod x y = x - y * of_int (trunc (x / y))"

definition atan2 :: "real \<Rightarrow> real \<Rightarrow> real" where
  "atan2 y x =
     (if 0 < x then arctan (y / x)
      else if x < 0 \<and> 0 \<le> y then arctan (y / x) + pi
      else if x < 0 \<and> y < 0 then arctan (y / x) - pi
      else if 0 < y then pi / 2
      else if y < 0 then - (pi / 2)
      else 0)"

text \<open>The three cells of a \<open>double[3]\<close>.\<close>

fun el0 :: "vec3 \<Rightarrow> real" where "el0 (a, b, c) = a"
fun el1 :: "vec3 \<Rightarrow> real" where "el1 (a, b, c) = b"
fun el2 :: "vec3 \<Rightarrow> real" where "el2 (a, b, c) = c"

subsection \<open>Surface vertices\<close>

text \<open>The choice of the first tangent from the unit normal (the \<open>if\<close> of
  \<open>vertex_from_pot\<close>).\<close>

fun tangent1 :: "vec3 \<Rightarrow> vec3" where
  "tangent1 (n0, n1, n2) =
     (if n0 > 0.5 \<or> n1 > 0.5
      then (let nn = sqrt (n1*n1 + n0*n0) in (n1 / nn, - n0 / nn, 0))
      else (let nn = sqrt (n0*n0 + n2*n2) in (- n2 / nn, 0, n0 / nn)))"

definition vertex_from_pot :: "vec3 \<Rightarrow> PotentialParameters \<Rightarrow> MeshVertex" where
  "vertex_from_pot rr pp =
     (let g0 = call (dx pp) rr (p pp);
          g1 = call (dy pp) rr (p pp);
          g2 = call (dz pp) rr (p pp);
          nn = sqrt (g0*g0 + g1*g1 + g2*g2);
          n0 = g0 / nn; n1 = g1 / nn; n2 = g2 / nn;
          (a0, a1, a2) = tangent1 (n0, n1, n2);
          b0 = n1*a2 - n2*a1;
          b1 = n2*a0 - n0*a2;
          b2 = n0*a1 - n1*a0;
          detA = n0*a1*b2 - b0*a1*n2 + a0*b1*n2 - n0*b1*a2 + b0*n1*a2 - a0*n1*b2
      in \<lparr>r = rr, n = (n0, n1, n2), t1 = (a0, a1, a2), t2 = (b0, b1, b2),
          invM = [(a1*b2 - b1*a2) / detA, (b0*a2 - a0*b2) / detA, (a0*b1 - b0*a1) / detA,
                  (b1*n2 - n1*b2) / detA, (n0*b2 - b0*n2) / detA, (b0*n1 - n0*b1) / detA,
                  (n1*a2 - n2*a1) / detA, (a0*n2 - n0*a2) / detA, (n0*a1 - a0*n1) / detA]\<rparr>)"

subsection \<open>Projection onto the surface\<close>

text \<open>The loop condition of \<open>project_onto_potential\<close> compares \<open>r\<close> with \<open>ri\<close>.\<close>

fun sq_dist :: "vec3 \<Rightarrow> vec3 \<Rightarrow> real" where
  "sq_dist (a0, a1, a2) (b0, b1, b2) = (a0-b0)*(a0-b0) + (a1-b1)*(a1-b1) + (a2-b2)*(a2-b2)"

text \<open>One pass through the loop body: the new \<open>r\<close> from \<open>ri\<close>.\<close>

definition newton_step :: "PotentialParameters \<Rightarrow> vec3 \<Rightarrow> vec3" where
  "newton_step pp ri =
     (let g0 = call (dx pp) ri (p pp);
          g1 = call (dy pp) ri (p pp);
          g2 = call (dz pp) ri (p pp);
          grsq = g0*g0 + g1*g1 + g2*g2;
          s = call (pot pp) ri (p pp)
      in (el0 ri - s*g0/grsq, el1 ri - s*g1/grsq, el2 ri - s*g2/grsq))"

function project_loop :: "PotentialParameters \<Rightarrow> vec3 \<Rightarrow> vec3 \<Rightarrow> nat \<Rightarrow> vec3 \<times> nat" where
  "project_loop pp rr ri n_iter =
     (if sq_dist rr ri > 1 / 10 ^ 12 \<and> n_iter < 100
      then project_loop pp (newton_step pp rr) rr (n_iter + 1)
      else (rr, n_iter))"
  by pat_completeness auto
termination
  by (relation "measure (\<lambda>(pp, rr, ri, n_iter). 100 - n_iter)") auto

declare project_loop.simps [simp del]

text \<open>
  \<open>project_onto_potential\<close> returns the vertex; the flag says whether the warning line was
  printed.  The C function also leaves the last iterate in the caller's array, which no
  caller reads again.
\<close>

definition project_onto_potential :: "vec3 \<Rightarrow> PotentialParameters \<Rightarrow> MeshVertex \<times> bool" where
  "project_onto_potential rr pp =
     (let (rf, n_iter) = project_loop pp rr (0, 0, 0) 0
      in (vertex_from_pot rf pp, n_iter \<ge> 90))"

subsection \<open>Local frames\<close>

definition cart2local :: "MeshVertex \<Rightarrow> vec3 \<Rightarrow> vec3" where
  "cart2local v rd =
     (invM v ! 0 * el0 rd + invM v ! 1 * el1 rd + invM v ! 2 * el2 rd,
      invM v ! 3 * el0 rd + invM v ! 4 * el1 rd + invM v ! 5 * el2 rd,
      invM v ! 6 * el0 rd + invM v ! 7 * el1 rd + invM v ! 8 * el2 rd)"

definition local2cart :: "MeshVertex \<Rightarrow> vec3 \<Rightarrow> vec3" where
  "local2cart v rd =
     (el0 (n v) * el0 rd + el0 (t1 v) * el1 rd + el0 (t2 v) * el2 rd,
      el1 (n v) * el0 rd + el1 (t1 v) * el1 rd + el1 (t2 v) * el2 rd,
      el2 (n v) * el0 rd + el2 (t1 v) * el1 rd + el2 (t2 v) * el2 rd)"

subsection \<open>The marching loop of \<open>cdiscretize\<close>\<close>

text \<open>
  The local variables of \<open>cdiscretize\<close> that live across loop iterations: the vertex
  store \<open>V\<close>, the front \<open>P\<close>, the triangles \<open>Ts\<close> and the counter \<open>step\<close>;
  \<open>warned\<close> counts the warning lines printed so far.
\<close>

record MarchState =
  V :: "MeshVertex list"
  P :: "MeshVertex list"
  Ts :: "Triangle list"
  step :: int
  warned :: nat

text \<open>The first loop: the six points around the seed vertex \<open>p0\<close>.\<close>

definition ring_step :: "real \<Rightarrow> PotentialParameters \<Rightarrow> MeshVertex \<Rightarrow> nat \<Rightarrow> MarchState \<Rightarrow> MarchState" where
  "ring_step delta pp p0 i st =
     (let pi3 = PI / 3;
          qk = (el0 (r p0) + delta * cos (real i * pi3) * el0 (t1 p0) + delta * sin (real i * pi3) * el0 (t2 p0),
                el1 (r p0) + delta * cos (real i * pi3) * el1 (t1 p0) + delta * sin (real i * pi3) * el1 (t2 p0),
                el2 (r p0) + delta * cos (real i * pi3) * el2 (t1 p0) + delta * sin (real i * pi3) * el2 (t2 p0));
          (pk, w) = project_onto_potential qk pp
      in st\<lparr>P := vertex_array_append (P st) pk,
            V := vertex_array_append (V st) pk,
            warned := warned st + (if w then 1 else 0)\<rparr>)"

text \<open>The second loop: the six triangles of the hexagon.\<close>

definition hexagon_step :: "nat \<Rightarrow> MarchState \<Rightarrow> MarchState" where
  "hexagon_step i st =
     (let idx1 = [1, 2, 3, 4, 5, 6 :: nat];
          idx2 = [2, 3, 4, 5, 6, 1 :: nat];
          tri = \<lparr>v0 = V st ! 0, v1 = V st ! (idx1 ! i), v2 = V st ! (idx2 ! i)\<rparr>
      in st\<lparr>Ts := triangle_array_append (Ts st) tri\<rparr>)"

text \<open>The state on entry to the \<open>while\<close> loop.\<close>

definition init_state :: "real \<Rightarrow> PotentialParameters \<Rightarrow> MarchState" where
  "init_state delta pp =
     (let (p0, w) = project_onto_potential (- 0.00002, 0, 0) pp;
          st0 = \<lparr>V = vertex_array_append vertex_array_new p0, P = vertex_array_new,
                 Ts = triangle_array_new, step = - 1, warned = (if w then 1 else 0)\<rparr>;
          st1 = fold (ring_step delta pp p0) [0..<6] st0
      in fold hexagon_step [0..<6] st1)"

text \<open>The interior angle \<open>omega[i]\<close> of the front \<open>Pl\<close>.\<close>

definition omega_at :: "MeshVertex list \<Rightarrow> nat \<Rightarrow> real" where
  "omega_at Pl i =
     (let j = (if i = 0 then length Pl - 1 else i - 1);
          rdiff = (el0 (r (Pl ! j)) - el0 (r (Pl ! i)),
                   el1 (r (Pl ! j)) - el1 (r (Pl ! i)),
                   el2 (r (Pl ! j)) - el2 (r (Pl ! i)));
          c2l1 = cart2local (Pl ! i) rdiff;
          j = (if i < length Pl - 1 then i + 1 else 0);
          rdiff = (el0 (r (Pl ! j)) - el0 (r (Pl ! i)),
                   el1 (r (Pl ! j)) - el1 (r (Pl ! i)),
                   el2 (r (Pl ! j)) - el2 (r (Pl ! i)));
          c2l2 = cart2local (Pl ! i) rdiff;
          adiff = atan2 (el2 c2l2) (el1 c2l2) - atan2 (el2 c2l1) (el1 c2l1);
          adiff = (if adiff < 0 then adiff + 2 * PI else adiff)
      in fmod adiff (2 * PI))"

text \<open>The number of triangles \<open>nt\<close> and the angle \<open>domega\<close> of each, from the smallest
  interior angle.\<close>

definition wedge_division :: "real \<Rightarrow> int \<times> real" where
  "wedge_division minangle =
     (let nt = trunc (minangle * 3 / PI) + 1;
          domega = minangle / of_int nt
      in if domega < 0.8 \<and> nt > 1
         then (nt - 1, minangle / of_int (nt - 1))
         else (nt, domega))"

text \<open>One pass through the fan loop, for the loop variable \<open>i\<close>.\<close>

definition fan_step :: "real \<Rightarrow> PotentialParameters \<Rightarrow> MeshVertex \<Rightarrow> MeshVertex \<Rightarrow> real \<Rightarrow> nat \<Rightarrow> MarchState \<Rightarrow> MarchState" where
  "fan_step delta pp p0m va domega i st =
     (let rdiff = (el0 (r va) - el0 (r p0m), el1 (r va) - el1 (r p0m), el2 (r va) - el2 (r p0m));
          c2l1 = cart2local p0m rdiff;
          c1 = el1 c2l1 * cos (real i * domega) - el2 c2l1 * sin (real i * domega);
          c2 = el1 c2l1 * sin (real i * domega) + el2 c2l1 * cos (real i * domega);
          norm3 = sqrt (c1*c1 + c2*c2);
          c2l2 = (0, c1 / (norm3 / delta), c2 / (norm3 / delta));
          l2c = local2cart p0m c2l2;
          qk = (el0 (r p0m) + el0 l2c, el1 (r p0m) + el1 l2c, el2 (r p0m) + el2 l2c);
          (pk, w) = project_onto_potential qk pp;
          Va = vertex_array_append (V st) pk;
          tri = \<lparr>v0 = (if i = 1 then va else Va ! (length Va - 2)), v1 = pk, v2 = p0m\<rparr>
      in st\<lparr>V := Va, Ts := triangle_array_append (Ts st) tri,
            warned := warned st + (if w then 1 else 0)\<rparr>)"

text \<open>The content of a block cell that \<open>realloc\<close> has added and nothing has written yet.  It
  is indeterminate in C; the splice overwrites every such cell.\<close>

definition fresh_cell :: MeshVertex where
  "fresh_cell = \<lparr>r = (0, 0, 0), n = (0, 0, 0), t1 = (0, 0, 0), t2 = (0, 0, 0), invM = []\<rparr>"

text \<open>
  The body of the \<open>while\<close> loop after the test of the step bound.  The result is
  \<open>None\<close> where the C code leaves defined behaviour: a block of negative size
  (\<open>nt < 1\<close>) or a splice outside the front.
\<close>

definition march_body :: "real \<Rightarrow> PotentialParameters \<Rightarrow> MarchState \<Rightarrow> MarchState option" where
  "march_body delta pp st =
     (let Pl = P st;
          omega = map (omega_at Pl) [0..<length Pl];
          minidx = argmin omega (length Pl);
          minangle = omega ! minidx;
          (nt, domega) = wedge_division minangle;
          i = (if minidx = 0 then length Pl - 1 else minidx - 1);
          j = (if minidx < length Pl - 1 then minidx + 1 else 0);
          p0m = Pl ! minidx;
          va = Pl ! i;
          vb = Pl ! j;
          st1 = fold (fan_step delta pp p0m va domega) [1..<nat nt] st;
          tri = (if nt = 1 then \<lparr>v0 = va, v1 = vb, v2 = p0m\<rparr>
                 else \<lparr>v0 = V st1 ! (length (V st1) - 1), v1 = vb, v2 = p0m\<rparr>);
          st2 = st1\<lparr>Ts := triangle_array_append (Ts st1) tri\<rparr>;
          Pi = map (\<lambda>i. V st2 ! nat (int (length (V st2)) - nt + int i)) [1..<nat nt]
      in if nt < 1 then None
         else case vertex_array_drop_and_stack fresh_cell (P st2) Pi minidx of
                None \<Rightarrow> None
              | Some Pn \<Rightarrow> Some (st2\<lparr>P := Pn\<rparr>))"

text \<open>
  The \<open>while\<close> loop.  It returns the state in which it stops: by \<open>P->size == 0\<close> with the
  front empty, or by \<open>break\<close> with the front non-empty and the counter already incremented.
  A run that never stops is \<open>None\<close>.
\<close>

partial_function (option) march :: "real \<Rightarrow> int \<Rightarrow> PotentialParameters \<Rightarrow> MarchState \<Rightarrow> MarchState option" where
  "march delta max_triangles pp st =
     (if P st = [] then Some st
      else
        let st1 = st\<lparr>step := step st + 1\<rparr>
        in if max_triangles > 0 \<and> step st1 > max_triangles then Some st1
           else Option.bind (march_body delta pp st1) (march delta max_triangles pp))"

subsection \<open>The output table\<close>

definition triangle_row :: "PotentialParameters \<Rightarrow> Triangle \<Rightarrow> real list \<times> bool" where
  "triangle_row pp t =
     (let qk = ((el0 (r (v0 t)) + el0 (r (v1 t)) + el0 (r (v2 t))) / 3,
                (el1 (r (v0 t)) + el1 (r (v1 t)) + el1 (r (v2 t))) / 3,
                (el2 (r (v0 t)) + el2 (r (v1 t)) + el2 (r (v2 t))) / 3);
          (c, w) = project_onto_potential qk pp;
          side1 = sqrt (sq_dist (r (v0 t)) (r (v1 t)));
          side2 = sqrt (sq_dist (r (v0 t)) (r (v2 t)));
          side3 = sqrt (sq_dist (r (v2 t)) (r (v1 t)));
          s = 0.5 * (side1 + side2 + side3)
      in ([el0 (r c), el1 (r c), el2 (r c), sqrt (s * (s - side1) * (s - side2) * (s - side3)),
           el0 (r (v0 t)), el1 (r (v0 t)), el2 (r (v0 t)),
           el0 (r (v1 t)), el1 (r (v1 t)), el2 (r (v1 t)),
           el0 (r (v2 t)), el1 (r (v2 t)), el2 (r (v2 t)),
           el0 (n c), el1 (n c), el2 (n c)], w))"

definition table :: "PotentialParameters \<Rightarrow> Triangle list \<Rightarrow> real list list" where
  "table pp ts = map (\<lambda>t. fst (triangle_row pp t)) ts"

text \<open>\<open>cdiscretize_loop\<close> is \<open>cdiscretize\<close> up to the end of the \<open>while\<close> loop, and
  \<open>cdiscretize\<close> returns the table built from the triangles of that state.  The warning
  lines that the projections of the centroids print are not part of the returned value.\<close>

definition cdiscretize_loop :: "real \<Rightarrow> int \<Rightarrow> string \<Rightarrow> real list \<Rightarrow> MarchState option" where
  "cdiscretize_loop delta max_triangles potential args =
     (let pp = initialize_pars potential args
      in march delta max_triangles pp (init_state delta pp))"

definition cdiscretize :: "real \<Rightarrow> int \<Rightarrow> string \<Rightarrow> real list \<Rightarrow> real list list option" where
  "cdiscretize delta max_triangles potential args =
     map_option (\<lambda>st. table (initialize_pars potential args) (Ts st))
       (cdiscretize_loop delta max_triangles potential args)"

subsection \<open>The Python entry point\<close>

text \<open>
  \<open>discretize(self, args)\<close> receives the tuple of positional arguments.  An argument is a
  Python float, integer or string, or something else (\<open>PyNone\<close>).  The three messages
  the function raises with \<open>ValueError\<close> are the three argument errors; the other
  errors are those of \<open>PyArg_ParseTuple\<close>.
\<close>

datatype PyObject = PyFloat real | PyInt int | PyString string | PyNone

datatype PyErr = ValueError string | TypeError | OverflowError

text \<open>
  \<open>PyArg_ParseTuple\<close> with the format \<open>"dis|dddddd"\<close>, as the Python C API documents
  it: three to nine arguments, converted from left to right, the first failure being the
  error raised.  \<open>d\<close> takes a float, or an integer that a double can hold (an integer
  that rounds to \<open>2\<^sup>1\<^sup>0\<^sup>2\<^sup>4\<close> or more raises \<open>OverflowError\<close>); \<open>i\<close> takes an integer
  that fits a C \<open>int\<close>; \<open>s\<close> a string without a null character.  The values after the
  third fill \<open>ipars\<close> from cell 0 on.
\<close>

fun as_double :: "PyObject \<Rightarrow> PyErr + real" where
  "as_double (PyFloat x) = Inr x"
| "as_double (PyInt k) =
     (if \<bar>k\<bar> < 2 ^ 1024 - 2 ^ 970 then Inr (of_int k) else Inl OverflowError)"
| "as_double _ = Inl TypeError"

fun as_int :: "PyObject \<Rightarrow> PyErr + int" where
  "as_int (PyInt k) = (if - (2 ^ 31) \<le> k \<and> k < 2 ^ 31 then Inr k else Inl OverflowError)"
| "as_int _ = Inl TypeError"

fun as_string :: "PyObject \<Rightarrow> string option" where
  "as_string (PyString s) = (if CHR 0x00 \<in> set s then None else Some s)"
| "as_string _ = None"

fun as_doubles :: "PyObject list \<Rightarrow> PyErr + real list" where
  "as_doubles [] = Inr []"
| "as_doubles (a # rest) =
     (case as_double a of
        Inl e \<Rightarrow> Inl e
      | Inr x \<Rightarrow> (case as_doubles rest of Inl e \<Rightarrow> Inl e | Inr xs \<Rightarrow> Inr (x # xs)))"

definition PyArg_ParseTuple :: "PyObject list \<Rightarrow> PyErr + (real \<times> int \<times> string \<times> real list)" where
  "PyArg_ParseTuple args =
     (if length args < 3 \<or> 9 < length args then Inl TypeError
      else case as_double (args ! 0) of
             Inl e \<Rightarrow> Inl e
           | Inr delta \<Rightarrow>
               (case as_int (args ! 1) of
                  Inl e \<Rightarrow> Inl e
                | Inr max_triangles \<Rightarrow>
                    (case as_string (args ! 2) of
                       None \<Rightarrow> Inl TypeError
                     | Some potential \<Rightarrow>
                         (case as_doubles (drop 3 args) of
                            Inl e \<Rightarrow> Inl e
                          | Inr vals \<Rightarrow> Inr (delta, max_triangles, potential, vals)))))"

text \<open>
  The chain of \<open>strcmp\<close> tests of \<open>discretize\<close>: it returns the error, or \<open>npars\<close> and
  \<open>ipars\<close> as the chain leaves them.
\<close>

definition check_potential :: "string \<Rightarrow> int \<Rightarrow> real list \<Rightarrow> PyErr + (int \<times> real list)" where
  "check_potential potential npars ipars =
     (let wrong = Inl (ValueError ''Wrong number of parameters for this type of potential.'')
      in if potential = ''Sphere''
         then (if npars \<noteq> 4 then wrong else Inr (npars, ipars))
         else if potential = ''BinaryRoche''
         then (if npars < 6 \<or> npars > 7 then wrong
               else if npars = 6 then Inr (npars + 1, ipars[3 := 0])
               else Inr (npars, ipars))
         else if potential = ''MisalignedBinaryRoche''
         then (if npars < 8 \<or> npars > 9 then wrong
               else if npars = 8 then Inr (npars + 1, ipars[5 := 0])
               else Inr (npars, ipars))
         else if potential = ''RotateRoche''
         then (if npars \<noteq> 5 then wrong else Inr (npars, ipars))
         else if potential = ''Torus''
         then (if npars \<noteq> 5 then wrong else Inr (npars, ipars))
         else if potential = ''Heart''
         then (if npars \<noteq> 4 then wrong else Inr (npars, ipars))
         else Inl (ValueError ''Unavailable potential.''))"

text \<open>
  \<open>discretize\<close> up to the call of \<open>cdiscretize\<close>: the error raised, or the four arguments
  of the call.  A cell of \<open>ipars\<close> that no argument fills is indeterminate in C and is
  never copied into \<open>pars\<close> unless the chain has set it; the model holds 0 there.
\<close>

definition discretize_args :: "PyObject list \<Rightarrow> PyErr + (real \<times> int \<times> string \<times> real list)" where
  "discretize_args args =
     (let npars = int (length args)
      in if npars < 4 then Inl (ValueError ''Not enough parameters.'')
         else case PyArg_ParseTuple args of
                Inl e \<Rightarrow> Inl e
              | Inr (delta, max_triangles, potential, vals) \<Rightarrow>
                  (let ipars = vals @ replicate (6 - length vals) 0
                   in case check_potential potential npars ipars of
                        Inl e \<Rightarrow> Inl e
                      | Inr (npars', ipars') \<Rightarrow>
                          Inr (delta, max_triangles, potential, take (nat (npars' - 3)) ipars')))"

definition discretize :: "PyObject list \<Rightarrow> PyErr + real list list option" where
  "discretize args =
     (case discretize_args args of
        Inl e \<Rightarrow> Inl e
      | Inr (delta, max_triangles, potential, pars) \<Rightarrow>
          Inr (cdiscretize delta max_triangles potential pars))"

subsection \<open>What the specification says, and observations of a run\<close>

text \<open>
  The definitions of this subsection are not code of the file.  The first three follow
  the words of the specification, to be compared with the functions above; the fourth is
  the third with the constant of the file; the others name quantities of a run that the
  statements below speak about.
\<close>

text \<open>The tangent rule as the specification states it, with absolute values.\<close>

fun tangent1_claimed :: "vec3 \<Rightarrow> vec3" where
  "tangent1_claimed (n0, n1, n2) =
     (if \<bar>n0\<bar> > 0.5 \<or> \<bar>n1\<bar> > 0.5
      then (n1 / sqrt (n0*n0 + n1*n1), - n0 / sqrt (n0*n0 + n1*n1), 0)
      else (- n2 / sqrt (n0*n0 + n2*n2), 0, n0 / sqrt (n0*n0 + n2*n2)))"

text \<open>The projection as the specification states it: take a step, then stop as soon as
  the squared step is below \<open>10\<^sup>-\<^sup>1\<^sup>2\<close> or after 100 iterations.\<close>

function claimed_project_loop :: "PotentialParameters \<Rightarrow> vec3 \<Rightarrow> nat \<Rightarrow> vec3 \<times> nat" where
  "claimed_project_loop pp rk k =
     (let rk1 = newton_step pp rk
      in if sq_dist rk1 rk < 1 / 10 ^ 12 \<or> 100 \<le> k + 1 then (rk1, k + 1)
         else claimed_project_loop pp rk1 (k + 1))"
  by pat_completeness auto
termination
  by (relation "measure (\<lambda>(pp, rk, k). 100 - k)") auto

declare claimed_project_loop.simps [simp del]

text \<open>The wedge division as the specification states it, with the floor and the
  number \<open>pi\<close>.\<close>

definition wedge_division_claimed :: "real \<Rightarrow> int \<times> real" where
  "wedge_division_claimed alpha =
     (let nt = \<lfloor>alpha * 3 / pi\<rfloor> + 1;
          domega = alpha / of_int nt
      in if domega < 0.8 \<and> nt > 1
         then (nt - 1, alpha / of_int (nt - 1))
         else (nt, domega))"

text \<open>The same rule with the constant \<open>3.14159265359\<close> in the place of \<open>pi\<close>.\<close>

definition wedge_division_amended :: "real \<Rightarrow> int \<times> real" where
  "wedge_division_amended alpha =
     (let nt = \<lfloor>alpha * 3 / 3.14159265359\<rfloor> + 1;
          domega = alpha / of_int nt
      in if domega < 0.8 \<and> nt > 1
         then (nt - 1, alpha / of_int (nt - 1))
         else (nt, domega))"

text \<open>The iterates of the projection from \<open>r0\<close>, the value of \<open>ri\<close> at the test that
  follows \<open>k\<close> iterations, and the final value of \<open>n_iter\<close>.\<close>

definition iterate :: "PotentialParameters \<Rightarrow> vec3 \<Rightarrow> nat \<Rightarrow> vec3" where
  "iterate pp r0 k = (newton_step pp ^^ k) r0"

definition previous :: "PotentialParameters \<Rightarrow> vec3 \<Rightarrow> nat \<Rightarrow> vec3" where
  "previous pp r0 k = (if k = 0 then (0, 0, 0) else iterate pp r0 (k - 1))"

definition n_iterations :: "PotentialParameters \<Rightarrow> vec3 \<Rightarrow> nat" where
  "n_iterations pp r0 = snd (project_loop pp r0 (0, 0, 0) 0)"

text \<open>The smallest interior angle of the front of a state, and \<open>nt\<close> for it.\<close>

definition min_angle :: "MarchState \<Rightarrow> real" where
  "min_angle st =
     (let omega = map (omega_at (P st)) [0..<length (P st)]
      in omega ! argmin omega (length (P st)))"

definition nt_of :: "MarchState \<Rightarrow> int" where
  "nt_of st = fst (wedge_division (min_angle st))"

text \<open>How a run of the loop ended: the number of triangles, which is the number of rows
  of the table, and whether the loop left by \<open>break\<close> (the front is not empty).\<close>

definition loop_outcome :: "MarchState \<Rightarrow> nat \<times> bool" where
  "loop_outcome st = (length (Ts st), P st \<noteq> [])"

section \<open>Verification\<close>

subsection \<open>The front splice\<close>

lemma copy_loop_length: "length (copy_loop di si lo hi src dst) = length dst"
proof -
  have "length (fold (\<lambda>i d. d[di i := src ! si i]) xs dst) = length dst" for xs
    by (induction xs arbitrary: dst) simp_all
  then show ?thesis by (simp add: copy_loop_def)
qed

lemma copy_loop_step:
  "lo \<le> hi \<Longrightarrow> copy_loop di si lo (Suc hi) src dst = (copy_loop di si lo hi src dst)[di hi := src ! si hi]"
  by (simp add: copy_loop_def)

lemma copy_loop_nth:
  assumes "\<And>i. lo \<le> i \<Longrightarrow> i < hi \<Longrightarrow> di i = d0 + (i - lo)"
    and "j < length dst"
  shows "copy_loop di si lo hi src dst ! j =
           (if d0 \<le> j \<and> j < d0 + (hi - lo) then src ! si (lo + (j - d0)) else dst ! j)"
  using assms
proof (induction hi)
  case 0
  then show ?case by (auto simp add: copy_loop_def)
next
  case (Suc hi)
  show ?case
  proof (cases "lo \<le> hi")
    case False
    then show ?thesis by (auto simp add: copy_loop_def)
  next
    case True
    have ih: "copy_loop di si lo hi src dst ! j =
           (if d0 \<le> j \<and> j < d0 + (hi - lo) then src ! si (lo + (j - d0)) else dst ! j)"
      using Suc.IH Suc.prems by simp
    have dh: "di hi = d0 + (hi - lo)" using Suc.prems(1)[of hi] True by simp
    show ?thesis
    proof (cases "j = di hi")
      case True
      have a: "d0 \<le> j" "j < d0 + (Suc hi - lo)" "lo + (j - d0) = hi"
        using True dh \<open>lo \<le> hi\<close> by linarith+
      have "copy_loop di si lo (Suc hi) src dst ! j = src ! si hi"
        using True \<open>lo \<le> hi\<close> Suc.prems(2) by (simp add: copy_loop_step copy_loop_length)
      with a show ?thesis by (simp only: if_True simp_thms)
    next
      case False
      have a: "(d0 \<le> j \<and> j < d0 + (Suc hi - lo)) = (d0 \<le> j \<and> j < d0 + (hi - lo))"
        using False dh \<open>lo \<le> hi\<close> by linarith
      have "copy_loop di si lo (Suc hi) src dst ! j = copy_loop di si lo hi src dst ! j"
        using False \<open>lo \<le> hi\<close> by (simp add: copy_loop_step)
      with a ih show ?thesis by (simp only:)
    qed
  qed
qed

lemma nth_append3:
  "length A = a \<Longrightarrow> length B = b \<Longrightarrow>
   (A @ B @ C) ! j = (if j < a then A ! j else if j < a + b then B ! (j - a) else C ! (j - a - b))"
  by (auto simp add: nth_append)

lemma copy_loop_block:
  assumes di: "\<And>i. lo \<le> i \<Longrightarrow> i < hi \<Longrightarrow> di i = d0 + (i - lo)"
    and si: "\<And>i. lo \<le> i \<Longrightarrow> i < hi \<Longrightarrow> si i = s0 + (i - lo)"
    and "d0 + (hi - lo) \<le> length dst" and "s0 + (hi - lo) \<le> length src"
  shows "copy_loop di si lo hi src dst =
           take d0 dst @ take (hi - lo) (drop s0 src) @ drop (d0 + (hi - lo)) dst"
proof (rule nth_equalityI)
  show "length (copy_loop di si lo hi src dst) =
          length (take d0 dst @ take (hi - lo) (drop s0 src) @ drop (d0 + (hi - lo)) dst)"
    using assms(3,4) by (simp add: copy_loop_length)
next
  fix j assume "j < length (copy_loop di si lo hi src dst)"
  then have j: "j < length dst" by (simp add: copy_loop_length)
  have nth: "copy_loop di si lo hi src dst ! j =
           (if d0 \<le> j \<and> j < d0 + (hi - lo) then src ! si (lo + (j - d0)) else dst ! j)"
    using di j by (rule copy_loop_nth)
  have lA: "length (take d0 dst) = d0" using assms(3) by simp
  have lB: "length (take (hi - lo) (drop s0 src)) = hi - lo" using assms(4) by simp
  note rhs = nth_append3[OF lA lB, of "drop (d0 + (hi - lo)) dst" j]
  consider "j < d0" | "d0 \<le> j" "j < d0 + (hi - lo)" | "d0 + (hi - lo) \<le> j" by linarith
  then show "copy_loop di si lo hi src dst ! j =
          (take d0 dst @ take (hi - lo) (drop s0 src) @ drop (d0 + (hi - lo)) dst) ! j"
  proof cases
    case 1
    then have "\<not> (d0 \<le> j \<and> j < d0 + (hi - lo))" by linarith
    with nth have "copy_loop di si lo hi src dst ! j = dst ! j" by (simp only: if_False)
    moreover have "(take d0 dst @ take (hi - lo) (drop s0 src) @ drop (d0 + (hi - lo)) dst) ! j
                    = take d0 dst ! j"
      using 1 by (simp only: rhs if_True)
    moreover have "take d0 dst ! j = dst ! j" using 1 by simp
    ultimately show ?thesis by simp
  next
    case 2
    have "lo \<le> lo + (j - d0)" "lo + (j - d0) < hi" using 2 by linarith+
    then have "si (lo + (j - d0)) = s0 + (j - d0)" using si[of "lo + (j - d0)"] by simp
    moreover from 2 have "d0 \<le> j \<and> j < d0 + (hi - lo)" by blast
    ultimately have "copy_loop di si lo hi src dst ! j = src ! (s0 + (j - d0))"
      using nth by (simp only: if_True simp_thms)
    moreover have "\<not> j < d0" using 2 by simp
    then have "(take d0 dst @ take (hi - lo) (drop s0 src) @ drop (d0 + (hi - lo)) dst) ! j
                    = take (hi - lo) (drop s0 src) ! (j - d0)"
      using 2(2) by (simp only: rhs if_True if_False)
    moreover have "j - d0 < hi - lo" using 2 by linarith
    then have "take (hi - lo) (drop s0 src) ! (j - d0) = src ! (s0 + (j - d0))"
      using assms(4) by simp
    ultimately show ?thesis by simp
  next
    case 3
    then have "\<not> (d0 \<le> j \<and> j < d0 + (hi - lo))" by linarith
    with nth have "copy_loop di si lo hi src dst ! j = dst ! j" by (simp only: if_False)
    moreover have "\<not> j < d0" "\<not> j < d0 + (hi - lo)" using 3 by linarith+
    then have "(take d0 dst @ take (hi - lo) (drop s0 src) @ drop (d0 + (hi - lo)) dst) ! j
                    = drop (d0 + (hi - lo)) dst ! (j - d0 - (hi - lo))"
      by (simp only: rhs if_False)
    moreover have "d0 + (hi - lo) + (j - d0 - (hi - lo)) = j" using 3 by linarith
    then have "drop (d0 + (hi - lo)) dst ! (j - d0 - (hi - lo)) = dst ! j"
      using j by (simp del: add_diff_assoc add_diff_assoc2)
    ultimately show ?thesis by simp
  qed
qed

lemma drop_and_stack_list:
  assumes "idx < length xs"
  shows "vertex_array_drop_and_stack g xs ys idx = Some (take idx xs @ ys @ drop (Suc idx) xs)"
proof -
  define m where "m = length xs + length ys - 1"
  define P1 where "P1 = realloc_cells g xs m"
  define Pstart where "Pstart = (if 0 < idx
          then copy_loop (\<lambda>i. i) (\<lambda>i. i) 0 idx xs (realloc_cells g [] idx) else [])"
  define Pend where "Pend = (if idx < length xs - 1
          then copy_loop (\<lambda>i. i - idx - 1) (\<lambda>i. i) (idx + 1) (length xs) xs
                 (realloc_cells g [] (length xs - idx - 1)) else [])"
  define P2 where "P2 = (if 0 < idx
          then copy_loop (\<lambda>i. i) (\<lambda>i. i) 0 (length Pstart) Pstart P1 else P1)"
  define P3 where "P3 = (if 0 < length ys
          then copy_loop (\<lambda>i. i + idx) (\<lambda>i. i) 0 (length ys) ys P2 else P2)"
  define P4 where "P4 = (if idx < m
          then copy_loop (\<lambda>i. i) (\<lambda>i. i - idx - length ys) (idx + length ys) m Pend P3 else P3)"
  have unfold: "vertex_array_drop_and_stack g xs ys idx = (if m = 0 then Some P1 else Some P4)"
    using assms
    unfolding vertex_array_drop_and_stack_def Let_def P4_def P3_def P2_def Pend_def Pstart_def
      P1_def m_def
    by (simp only: if_False not_le [symmetric] simp_thms)
  have Pstart: "0 < idx \<Longrightarrow> Pstart = take idx xs"
    using assms copy_loop_block[of 0 idx "\<lambda>i. i" 0 "\<lambda>i. i" 0 "realloc_cells g [] idx" xs]
    by (simp add: realloc_cells_def Pstart_def)
  have Pend: "idx < length xs - 1 \<Longrightarrow> Pend = drop (Suc idx) xs"
    using assms copy_loop_block[of "idx + 1" "length xs" "\<lambda>i. i - idx - 1" 0 "\<lambda>i. i" "idx + 1"
        "realloc_cells g [] (length xs - idx - 1)" xs]
    by (simp add: realloc_cells_def Pend_def)
  have len1: "length P1 = m" by (simp add: realloc_cells_def P1_def)
  show ?thesis
  proof (cases "m = 0")
    case True
    then have "length xs = 1 \<and> length ys = 0 \<and> idx = 0" using assms unfolding m_def by linarith
    then have "take idx xs @ ys @ drop (Suc idx) xs = []" by simp
    moreover have "P1 = []" using True by (simp add: P1_def realloc_cells_def)
    moreover have "vertex_array_drop_and_stack g xs ys idx = Some P1"
      using True by (simp only: unfold if_True simp_thms)
    ultimately show ?thesis by simp
  next
    case False
    have nS: "m = length xs - 1 + length ys" using assms unfolding m_def by linarith
    have P2: "P2 = take idx xs @ drop idx P1"
    proof (cases "0 < idx")
      case True
      have "copy_loop (\<lambda>i. i) (\<lambda>i. i) 0 idx (take idx xs) P1
             = take 0 P1 @ take (idx - 0) (drop 0 (take idx xs)) @ drop (0 + (idx - 0)) P1"
        using assms len1 nS by (intro copy_loop_block) auto
      then show ?thesis using True assms by (simp add: P2_def Pstart)
    next
      case False then show ?thesis by (simp add: P2_def)
    qed
    have len2: "length P2 = m" using assms len1 nS by (simp add: P2)
    have P3: "P3 = take idx xs @ ys @ drop (idx + length ys) P1"
    proof (cases "0 < length ys")
      case True
      have "copy_loop (\<lambda>i. i + idx) (\<lambda>i. i) 0 (length ys) ys P2
             = take idx P2 @ take (length ys - 0) (drop 0 ys) @ drop (idx + (length ys - 0)) P2"
        using assms len2 nS by (intro copy_loop_block) auto
      also have "\<dots> = take idx xs @ ys @ drop (idx + length ys) P1"
        using assms len1 by (simp add: P2 add.commute)
      finally show ?thesis using True by (simp add: P3_def)
    next
      case False
      then show ?thesis using P2 by (simp add: P3_def)
    qed
    have len3: "length P3 = m" using assms len1 nS by (simp add: P3)
    have P4: "P4 = take idx xs @ ys @ drop (Suc idx) xs"
    proof (cases "idx < length xs - 1")
      case True
      have m': "m - (idx + length ys) = length xs - Suc idx" using True nS by linarith
      have "copy_loop (\<lambda>i. i) (\<lambda>i. i - idx - length ys) (idx + length ys) m (drop (Suc idx) xs) P3
             = take (idx + length ys) P3 @ take (m - (idx + length ys)) (drop 0 (drop (Suc idx) xs))
                 @ drop (idx + length ys + (m - (idx + length ys))) P3"
        using True assms len3 nS by (intro copy_loop_block) auto
      also have "\<dots> = take idx xs @ ys @ drop (Suc idx) xs"
        using True assms len1 len3 nS by (simp add: m') (simp add: P3)
      finally have "copy_loop (\<lambda>i. i) (\<lambda>i. i - idx - length ys) (idx + length ys) m Pend P3
             = take idx xs @ ys @ drop (Suc idx) xs"
        using True by (simp only: Pend)
      moreover have "idx < m" using True nS by linarith
      ultimately show ?thesis by (simp only: P4_def if_True)
    next
      case False
      then have last: "Suc idx = length xs" using assms by simp
      then have "idx + length ys = m" using nS by linarith
      then have "copy_loop (\<lambda>i. i) (\<lambda>i. i - idx - length ys) (idx + length ys) m Pend P3 = P3"
        by (simp add: copy_loop_def)
      moreover have "drop (idx + length ys) P1 = []" using \<open>idx + length ys = m\<close> len1 by simp
      ultimately show ?thesis using last by (simp add: P3 P4_def)
    qed
    with False show ?thesis by (simp add: unfold)
  qed
qed

text \<open>
  Claim C4.  For a front of size at least 1, an index \<open>idx\<close> inside it and any vertex
  sequence \<open>ys\<close>, drop-and-splice replaces the one element at \<open>idx\<close> by \<open>ys\<close>: the
  new size is the old size minus 1 plus the length of \<open>ys\<close>; every element before
  \<open>idx\<close> keeps its index and value; the elements of \<open>ys\<close> follow in order from index
  \<open>idx\<close>; the elements that were after \<open>idx\<close> follow in their order; and a new size
  of 0 is the empty front.
\<close>

theorem drop_and_stack_splice:
  assumes "idx < length xs"
  shows "\<exists>zs. vertex_array_drop_and_stack g xs ys idx = Some zs \<and>
           length zs = length xs - 1 + length ys \<and>
           (\<forall>i<idx. zs ! i = xs ! i) \<and>
           (\<forall>i<length ys. zs ! (idx + i) = ys ! i) \<and>
           (\<forall>i. idx < i \<and> i < length xs \<longrightarrow> zs ! (i - 1 + length ys) = xs ! i) \<and>
           (length xs - 1 + length ys = 0 \<longrightarrow> zs = [])"
proof -
  let ?zs = "take idx xs @ ys @ drop (Suc idx) xs"
  have lA: "length (take idx xs) = idx" using assms by simp
  have lB: "length ys = length ys" by simp
  note nth = nth_append3[OF lA lB, of "drop (Suc idx) xs"]
  have 1: "length ?zs = length xs - 1 + length ys" using assms by simp
  have 2: "\<forall>i<idx. ?zs ! i = xs ! i" by (simp add: nth)
  have 3: "\<forall>i<length ys. ?zs ! (idx + i) = ys ! i" by (simp add: nth)
  have 4: "\<forall>i. idx < i \<and> i < length xs \<longrightarrow> ?zs ! (i - 1 + length ys) = xs ! i"
  proof (intro allI impI)
    fix i assume i: "idx < i \<and> i < length xs"
    then have a: "\<not> i - 1 + length ys < idx" "\<not> i - 1 + length ys < idx + length ys"
      by linarith+
    from i have b: "i - 1 + length ys - idx - length ys = i - Suc idx" by linarith
    from i have c: "Suc idx + (i - Suc idx) = i" by linarith
    have "?zs ! (i - 1 + length ys) = drop (Suc idx) xs ! (i - Suc idx)"
      using a b by (simp only: nth if_False)
    also have "\<dots> = xs ! i" using i c by (simp del: add_Suc)
    finally show "?zs ! (i - 1 + length ys) = xs ! i" .
  qed
  have 5: "length xs - 1 + length ys = 0 \<longrightarrow> ?zs = []"
  proof
    assume "length xs - 1 + length ys = 0"
    with 1 have "length ?zs = 0" by (simp only:)
    then show "?zs = []" by (simp only: length_0_conv)
  qed
  have 0: "vertex_array_drop_and_stack g xs ys idx = Some ?zs"
    by (rule drop_and_stack_list[OF assms])
  show ?thesis
    by (rule exI[of _ ?zs]) (intro conjI 0 1 2 3 4 5)
qed

theorem drop_and_stack_splice_witness:
  "vertex_array_drop_and_stack (0::nat) [10, 20, 30] [7, 8] 1 = Some [10, 7, 8, 30]"
proof -
  have h: "(1::nat) < length [10, 20, 30 :: nat]" by simp
  from drop_and_stack_splice[OF h, of 0 "[7, 8]"]
  obtain zs where zs: "vertex_array_drop_and_stack (0::nat) [10, 20, 30] [7, 8] 1 = Some zs"
    and len: "length zs = length [10, 20, 30 :: nat] - 1 + length [7, 8 :: nat]"
    and a: "\<forall>i<1. zs ! i = [10, 20, 30] ! i"
    and b: "\<forall>i<length [7, 8 :: nat]. zs ! (1 + i) = [7, 8] ! i"
    and c: "\<forall>i. 1 < i \<and> i < length [10, 20, 30 :: nat] \<longrightarrow> zs ! (i - 1 + length [7, 8 :: nat]) = [10, 20, 30] ! i"
    by blast
  have l: "length zs = Suc (Suc (Suc (Suc 0)))" using len by simp
  have z0: "zs ! 0 = 10" using a by simp
  have z1: "zs ! Suc 0 = 7" using b[rule_format, of 0] by simp
  have z2: "zs ! Suc (Suc 0) = 8" using b[rule_format, of 1] by simp
  have "zs ! (2 - 1 + length [7, 8 :: nat]) = [10, 20, 30 :: nat] ! 2"
    using c[rule_format, of 2] by simp
  then have z3: "zs ! Suc (Suc (Suc 0)) = 30" by (simp add: numeral_eq_Suc)
  obtain a0 a1 a2 a3 where "zs = [a0, a1, a2, a3]"
    using l by (auto simp add: length_Suc_conv)
  with z0 z1 z2 z3 have "zs = [10, 7, 8, 30]" by simp
  with zs show ?thesis by simp
qed

subsection \<open>Pivot selection\<close>

lemma argmin_loop_fold:
  "argmin_loop a len mn i =
     fold (\<lambda>i mn. if a ! mn - a ! i > 1 / 10 ^ 6 then i else mn) [i..<len] mn"
proof (induction a len mn i rule: argmin_loop.induct)
  case (1 array len mn i)
  show ?case
  proof (cases "i < len")
    case True
    then have "[i..<len] = i # [i + 1..<len]" by (simp add: upt_conv_Cons)
    with True 1 show ?thesis by (simp add: argmin_loop.simps[of array len mn i])
  next
    case False
    then show ?thesis by (simp add: argmin_loop.simps[of array len mn i])
  qed
qed

lemma argmin_loop_keep:
  "(\<And>j. i \<le> j \<Longrightarrow> j < len \<Longrightarrow> a ! mn - a ! j \<le> 1 / 10 ^ 6) \<Longrightarrow> argmin_loop a len mn i = mn"
proof (induction a len mn i rule: argmin_loop.induct)
  case (1 array len mn i)
  show ?case
  proof (cases "i < len")
    case True
    have "\<not> array ! mn - array ! i > 1 / 10 ^ 6" using "1.prems"[of i] True by simp
    moreover have "argmin_loop array len mn (i + 1) = mn"
      using "1.IH" True calculation "1.prems" by simp
    ultimately show ?thesis using True by (simp add: argmin_loop.simps[of array len mn i])
  next
    case False
    then show ?thesis by (simp add: argmin_loop.simps[of array len mn i])
  qed
qed

lemma argmin_loop_near_min:
  "a ! argmin_loop a len mn i \<le> a ! mn \<and>
   (\<forall>j. i \<le> j \<and> j < len \<longrightarrow> a ! argmin_loop a len mn i - a ! j \<le> 1 / 10 ^ 6)"
proof (induction a len mn i rule: argmin_loop.induct)
  case (1 array len mn i)
  show ?case
  proof (cases "i < len")
    case True
    let ?mn = "if array ! mn - array ! i > 1 / 10 ^ 6 then i else mn"
    have eq: "argmin_loop array len mn i = argmin_loop array len ?mn (i + 1)"
      using True by (simp add: argmin_loop.simps[of array len mn i])
    have ih: "array ! argmin_loop array len ?mn (i + 1) \<le> array ! ?mn"
      "\<And>j. i + 1 \<le> j \<Longrightarrow> j < len \<Longrightarrow> array ! argmin_loop array len ?mn (i + 1) - array ! j \<le> 1 / 10 ^ 6"
      using "1.IH"[OF True] by blast+
    have le: "array ! ?mn \<le> array ! mn" "array ! ?mn - array ! i \<le> 1 / 10 ^ 6" by auto
    have "array ! argmin_loop array len ?mn (i + 1) - array ! j \<le> 1 / 10 ^ 6"
      if "i \<le> j" "j < len" for j
    proof (cases "j = i")
      case True
      show ?thesis unfolding True using ih(1) le(2) by linarith
    next
      case False
      with that ih(2)[of j] show ?thesis by simp
    qed
    with ih(1) le(1) show ?thesis unfolding eq by fastforce
  next
    case False
    then show ?thesis by (simp add: argmin_loop.simps[of array len mn i])
  qed
qed

lemma argmin_loop_bound: "mn < len \<Longrightarrow> argmin_loop a len mn i < len"
proof (induction a len mn i rule: argmin_loop.induct)
  case (1 array len mn i)
  then show ?case by (simp add: argmin_loop.simps[of array len mn i])
qed

lemma argmin_bound: "0 < len \<Longrightarrow> argmin a len < len"
  by (simp add: argmin_def argmin_loop_bound)

lemma argmin_loop_first:
  assumes "mn < i"
    and "\<forall>j<i. a ! mn - a ! j \<le> 1 / 10 ^ 6"
    and "\<forall>j<mn. a ! mn < a ! j"
  shows "\<forall>j<argmin_loop a len mn i. a ! argmin_loop a len mn i < a ! j"
  using assms
proof (induction a len mn i rule: argmin_loop.induct)
  case (1 array len mn i)
  show ?case
  proof (cases "i < len")
    case False
    then show ?thesis using "1.prems"(3) by (simp add: argmin_loop.simps[of array len mn i])
  next
    case True
    show ?thesis
    proof (cases "array ! mn - array ! i > 1 / 10 ^ 6")
      case replaced: True
      have eq: "argmin_loop array len mn i = argmin_loop array len i (i + 1)"
        using True replaced by (simp add: argmin_loop.simps[of array len mn i])
      have below: "array ! i < array ! j" if "j < i" for j
        using "1.prems"(2) that replaced by (auto dest!: spec[of _ j])
      have "\<forall>j<i + 1. array ! i - array ! j \<le> 1 / 10 ^ 6"
      proof (intro allI impI)
        fix j assume "j < i + 1"
        then consider "j = i" | "j < i" by linarith
        then show "array ! i - array ! j \<le> 1 / 10 ^ 6"
        proof cases
          case 1 then show ?thesis by simp
        next
          case 2 with below[of j] show ?thesis by simp
        qed
      qed
      moreover have "\<forall>j<i. array ! i < array ! j" using below by blast
      ultimately have "\<forall>j<argmin_loop array len i (i + 1).
                          array ! argmin_loop array len i (i + 1) < array ! j"
        using "1.IH"[OF True] replaced by simp
      then show ?thesis by (simp only: eq)
    next
      case kept: False
      have eq: "argmin_loop array len mn i = argmin_loop array len mn (i + 1)"
        using True kept by (simp add: argmin_loop.simps[of array len mn i])
      have "\<forall>j<i + 1. array ! mn - array ! j \<le> 1 / 10 ^ 6"
      proof (intro allI impI)
        fix j assume "j < i + 1"
        then consider "j = i" | "j < i" by linarith
        then show "array ! mn - array ! j \<le> 1 / 10 ^ 6"
        proof cases
          case 1 with kept show ?thesis by simp
        next
          case 2 with "1.prems"(2) show ?thesis by simp
        qed
      qed
      then have "\<forall>j<argmin_loop array len mn (i + 1).
                          array ! argmin_loop array len mn (i + 1) < array ! j"
        using "1.IH"[OF True] kept "1.prems"(1,3) by simp
      then show ?thesis by (simp only: eq)
    qed
  qed
qed

text \<open>
  Claim C6.  Pivot selection is a linear scan from index 0 in which index \<open>i\<close> replaces the
  current minimum only when the current minimum value exceeds \<open>omega[i]\<close> by more than
  \<open>10\<^sup>-\<^sup>6\<close>.  So no value beats the returned one by more than that, every index before
  the returned one holds a strictly larger value, a current minimum is kept through
  every run of later values that lie within \<open>10\<^sup>-\<^sup>6\<close> below it or above it, and when no
  value is more than \<open>10\<^sup>-\<^sup>6\<close> below the first, index 0 is returned.
\<close>

theorem argmin_first_seen:
  "argmin a len = fold (\<lambda>i mn. if a ! mn - a ! i > 1 / 10 ^ 6 then i else mn) [1..<len] 0 \<and>
   (\<forall>j<len. a ! argmin a len - a ! j \<le> 1 / 10 ^ 6) \<and>
   (\<forall>j<argmin a len. a ! argmin a len < a ! j) \<and>
   (\<forall>mn i. (\<forall>j \<in> set [i..<len]. a ! mn - a ! j \<le> 1 / 10 ^ 6) \<longrightarrow> argmin_loop a len mn i = mn) \<and>
   ((\<forall>j \<in> set [1..<len]. a ! 0 - a ! j \<le> 1 / 10 ^ 6) \<longrightarrow> argmin a len = 0)"
proof (intro conjI allI impI)
  show "argmin a len = fold (\<lambda>i mn. if a ! mn - a ! i > 1 / 10 ^ 6 then i else mn) [1..<len] 0"
    by (simp add: argmin_def argmin_loop_fold)
next
  fix j assume "j < len"
  show "a ! argmin a len - a ! j \<le> 1 / 10 ^ 6"
  proof (cases "j = 0")
    case True
    have "a ! argmin a len \<le> a ! 0" using argmin_loop_near_min[of a len 0 1] by (simp add: argmin_def)
    with True show ?thesis by simp
  next
    case False
    with \<open>j < len\<close> argmin_loop_near_min[of a len 0 1] show ?thesis by (simp add: argmin_def)
  qed
next
  fix j assume "j < argmin a len"
  moreover have "\<forall>j<argmin_loop a len 0 1. a ! argmin_loop a len 0 1 < a ! j"
    by (rule argmin_loop_first) simp_all
  ultimately show "a ! argmin a len < a ! j" by (simp add: argmin_def)
next
  fix mn i assume "\<forall>j \<in> set [i..<len]. a ! mn - a ! j \<le> 1 / 10 ^ 6"
  then show "argmin_loop a len mn i = mn" by (intro argmin_loop_keep) simp
next
  assume "\<forall>j \<in> set [1..<len]. a ! 0 - a ! j \<le> 1 / 10 ^ 6"
  then show "argmin a len = 0" unfolding argmin_def by (intro argmin_loop_keep) simp
qed

theorem argmin_first_seen_witness:
  "argmin [1, 1.0000005, 0.9999995] 3 = 0 \<and>
   [1, 1.0000005, 0.9999995 :: real] ! argmin [1, 1.0000005, 0.9999995] 3 - [1, 1.0000005, 0.9999995] ! 2
     \<le> 1 / 10 ^ 6"
proof -
  have h: "\<forall>j \<in> set [1..<3]. [1, 1.0000005, 0.9999995 :: real] ! 0 - [1, 1.0000005, 0.9999995] ! j \<le> 1 / 10 ^ 6"
    by (simp add: upt_rec)
  have "(2::nat) < 3" by simp
  with argmin_first_seen[of "[1, 1.0000005, 0.9999995]" 3] h show ?thesis by blast
qed

subsection \<open>Projection onto the surface\<close>

lemma project_loop_stop:
  "\<not> (sq_dist rr ri > 1 / 10 ^ 12 \<and> k < 100) \<Longrightarrow> project_loop pp rr ri k = (rr, k)"
  by (subst project_loop.simps) (simp only: if_False)

lemma project_loop_continue:
  "sq_dist rr ri > 1 / 10 ^ 12 \<Longrightarrow> k < 100 \<Longrightarrow>
   project_loop pp rr ri k = project_loop pp (newton_step pp rr) rr (k + 1)"
  by (subst project_loop.simps) (simp only: if_True simp_thms)

lemma project_loop_unroll:
  "(\<And>j. j < k \<Longrightarrow> sq_dist (iterate pp r0 j) (previous pp r0 j) > 1 / 10 ^ 12 \<and> j < 100) \<Longrightarrow>
   project_loop pp r0 (0, 0, 0) 0 = project_loop pp (iterate pp r0 k) (previous pp r0 k) k"
proof (induction k)
  case 0
  show ?case by (simp add: iterate_def previous_def)
next
  case (Suc k)
  have "project_loop pp r0 (0, 0, 0) 0 = project_loop pp (iterate pp r0 k) (previous pp r0 k) k"
    using Suc by simp
  also have "\<dots> = project_loop pp (newton_step pp (iterate pp r0 k)) (iterate pp r0 k) (k + 1)"
    using Suc.prems[of k] by (intro project_loop_continue) simp_all
  also have "\<dots> = project_loop pp (iterate pp r0 (Suc k)) (previous pp r0 (Suc k)) (Suc k)"
    by (simp add: iterate_def previous_def)
  finally show ?case .
qed

lemma n_iterations_char:
  "n_iterations pp r0 \<le> 100 \<and>
   (\<forall>j<n_iterations pp r0. sq_dist (iterate pp r0 j) (previous pp r0 j) > 1 / 10 ^ 12) \<and>
   (n_iterations pp r0 < 100 \<longrightarrow>
      sq_dist (iterate pp r0 (n_iterations pp r0)) (previous pp r0 (n_iterations pp r0)) \<le> 1 / 10 ^ 12) \<and>
   project_loop pp r0 (0, 0, 0) 0 = (iterate pp r0 (n_iterations pp r0), n_iterations pp r0)"
proof -
  define cont where "cont j \<longleftrightarrow> sq_dist (iterate pp r0 j) (previous pp r0 j) > 1 / 10 ^ 12 \<and> j < 100" for j
  define K where "K = (LEAST j. \<not> cont j)"
  have "\<not> cont 100" by (simp add: cont_def)
  then have stop: "\<not> cont K" and le: "K \<le> 100" unfolding K_def by (rule LeastI, rule Least_le)
  have before: "cont j" if "j < K" for j using that not_less_Least unfolding K_def by blast
  have "project_loop pp r0 (0, 0, 0) 0 = project_loop pp (iterate pp r0 K) (previous pp r0 K) K"
    using before by (intro project_loop_unroll) (simp add: cont_def)
  also have "\<dots> = (iterate pp r0 K, K)"
    using stop by (intro project_loop_stop) (simp add: cont_def)
  finally have res: "project_loop pp r0 (0, 0, 0) 0 = (iterate pp r0 K, K)" .
  then have K: "n_iterations pp r0 = K" by (simp add: n_iterations_def)
  have "\<forall>j<K. sq_dist (iterate pp r0 j) (previous pp r0 j) > 1 / 10 ^ 12"
    using before by (simp add: cont_def)
  moreover have "K < 100 \<longrightarrow> sq_dist (iterate pp r0 K) (previous pp r0 K) \<le> 1 / 10 ^ 12"
    using stop by (auto simp add: cont_def)
  ultimately show ?thesis using le res unfolding K by blast
qed

text \<open>
  Claim C5, as amended.  The projection keeps a previous point, which is the origin
  \<open>(0, 0, 0)\<close> before the first iteration and the preceding iterate afterwards, and
  iterates \<open>r\<^sub>k\<^sub>+\<^sub>1 = r\<^sub>k - Phi(r\<^sub>k) * grad Phi(r\<^sub>k) / |grad Phi(r\<^sub>k)|\<^sup>2\<close>.  It
  stops as soon as the squared distance between the current point and the previous one is
  below \<open>10\<^sup>-\<^sup>1\<^sup>2\<close>, so before any iteration when the input is that close to the origin,
  or after 100 iterations; it iterates again whenever all the squared distances so far
  exceeded \<open>10\<^sup>-\<^sup>1\<^sup>2\<close> and fewer than 100 iterations were made.  So it makes at most 100
  iterations; the warning is printed exactly when the iteration count is at least 90; and
  the result is the vertex built at the last iterate.
\<close>

theorem projection_amended:
  "n_iterations pp r0 \<le> 100 \<and>
   previous pp r0 0 = (0, 0, 0) \<and>
   iterate pp r0 0 = r0 \<and>
   (\<forall>j. previous pp r0 (Suc j) = iterate pp r0 j \<and>
        iterate pp r0 (Suc j) =
          (let rk = iterate pp r0 j;
               Phi = call (pot pp) rk (p pp);
               gx = call (dx pp) rk (p pp);
               gy = call (dy pp) rk (p pp);
               gz = call (dz pp) rk (p pp);
               grsq = gx*gx + gy*gy + gz*gz
           in (el0 rk - Phi*gx/grsq, el1 rk - Phi*gy/grsq, el2 rk - Phi*gz/grsq))) \<and>
   (\<forall>j. sq_dist (iterate pp r0 j) (previous pp r0 j) < 1 / 10 ^ 12 \<longrightarrow> n_iterations pp r0 \<le> j) \<and>
   (\<forall>j<100. (\<forall>i\<le>j. sq_dist (iterate pp r0 i) (previous pp r0 i) > 1 / 10 ^ 12) \<longrightarrow>
              j < n_iterations pp r0) \<and>
   project_onto_potential r0 pp =
     (vertex_from_pot (iterate pp r0 (n_iterations pp r0)) pp, 90 \<le> n_iterations pp r0)"
proof -
  let ?m = "n_iterations pp r0"
  let ?d = "\<lambda>j. sq_dist (iterate pp r0 j) (previous pp r0 j)"
  note c = n_iterations_char[of pp r0]
  have before: "?d j > 1 / 10 ^ 12" if "j < ?m" for j using c that by blast
  have last: "?d ?m \<le> 1 / 10 ^ 12" if "?m < 100" using c that by blast
  have 1: "?m \<le> 100" using c by blast
  have 2: "previous pp r0 0 = (0, 0, 0)" "iterate pp r0 0 = r0"
    by (simp_all add: previous_def iterate_def)
  have 3: "previous pp r0 (Suc j) = iterate pp r0 j \<and>
        iterate pp r0 (Suc j) =
          (let rk = iterate pp r0 j;
               Phi = call (pot pp) rk (p pp);
               gx = call (dx pp) rk (p pp);
               gy = call (dy pp) rk (p pp);
               gz = call (dz pp) rk (p pp);
               grsq = gx*gx + gy*gy + gz*gz
           in (el0 rk - Phi*gx/grsq, el1 rk - Phi*gy/grsq, el2 rk - Phi*gz/grsq))" for j
    by (simp add: previous_def iterate_def newton_step_def Let_def)
  have 4: "?m \<le> j" if "?d j < 1 / 10 ^ 12" for j
  proof (rule ccontr)
    assume "\<not> ?m \<le> j"
    then have "j < ?m" by simp
    from before[OF this] that show False by simp
  qed
  have 5: "j < ?m" if "j < 100" "\<forall>i\<le>j. ?d i > 1 / 10 ^ 12" for j
  proof (rule ccontr)
    assume "\<not> j < ?m"
    then have le: "?m \<le> j" by simp
    with that(1) have "?m < 100" by simp
    from last[OF this] that(2) le show False by fastforce
  qed
  have 6: "project_onto_potential r0 pp = (vertex_from_pot (iterate pp r0 ?m) pp, 90 \<le> ?m)"
    using c by (simp add: project_onto_potential_def)
  from 1 2 3 4 5 6 show ?thesis by blast
qed

text \<open>
  Claim C9.  For every input point \<open>r0\<close> whose squared norm is at most \<open>10\<^sup>-\<^sup>1\<^sup>2\<close> the
  projection makes no iteration and returns the vertex built at \<open>r0\<close> itself, without a
  warning: the first test compares \<open>r0\<close> with the origin.
\<close>

theorem projection_near_origin:
  assumes "sq_dist r0 (0, 0, 0) \<le> 1 / 10 ^ 12"
  shows "n_iterations pp r0 = 0 \<and> project_loop pp r0 (0, 0, 0) 0 = (r0, 0) \<and>
         project_onto_potential r0 pp = (vertex_from_pot r0 pp, False)"
proof -
  have "project_loop pp r0 (0, 0, 0) 0 = (r0, 0)"
    using assms by (intro project_loop_stop) simp
  then show ?thesis by (simp add: n_iterations_def project_onto_potential_def)
qed

theorem projection_near_origin_witness:
  "n_iterations (initialize_pars ''Sphere'' [1]) (1 / 10 ^ 7, 0, 0) = 0 \<and>
   project_onto_potential (1 / 10 ^ 7, 0, 0) (initialize_pars ''Sphere'' [1]) =
     (vertex_from_pot (1 / 10 ^ 7, 0, 0) (initialize_pars ''Sphere'' [1]), False)"
proof -
  have h: "sq_dist (1 / 10 ^ 7, 0, 0) (0, 0, 0) \<le> 1 / 10 ^ 12" by simp
  from projection_near_origin[OF h, of "initialize_pars ''Sphere'' [1]"] show ?thesis by blast
qed

lemma claimed_loop_stop:
  "sq_dist (newton_step pp rk) rk < 1 / 10 ^ 12 \<or> 100 \<le> k + 1 \<Longrightarrow>
   claimed_project_loop pp rk k = (newton_step pp rk, k + 1)"
  by (subst claimed_project_loop.simps) (simp only: Let_def if_True)

lemma claimed_loop_continue:
  "\<not> (sq_dist (newton_step pp rk) rk < 1 / 10 ^ 12 \<or> 100 \<le> k + 1) \<Longrightarrow>
   claimed_project_loop pp rk k = claimed_project_loop pp (newton_step pp rk) (k + 1)"
  by (subst claimed_project_loop.simps) (simp only: Let_def if_False)

lemma claimed_loop_progress: "k < snd (claimed_project_loop pp rk k)"
proof (induction pp rk k rule: claimed_project_loop.induct)
  case (1 pp rk k)
  show ?case
  proof (cases "sq_dist (newton_step pp rk) rk < 1 / 10 ^ 12 \<or> 100 \<le> k + 1")
    case True
    then show ?thesis by (simp add: claimed_project_loop.simps[of pp rk k] Let_def)
  next
    case False
    with 1 have "k + 1 < snd (claimed_project_loop pp (newton_step pp rk) (k + 1))" by simp
    with False show ?thesis by (simp add: claimed_project_loop.simps[of pp rk k] Let_def)
  qed
qed

text \<open>
  Claim C5 as the specification words it fails for an input close to the origin.  From
  \<open>(10\<^sup>-\<^sup>7, 0, 0)\<close> on the unit sphere the code stops at once, with no step taken and the
  input itself as the last point, where the stated rule takes at least one step before
  its first test.
\<close>

theorem projection_stop_counterexample:
  "project_loop (initialize_pars ''Sphere'' [1]) (1 / 10 ^ 7, 0, 0) (0, 0, 0) 0 = ((1 / 10 ^ 7, 0, 0), 0) \<and>
   0 < snd (claimed_project_loop (initialize_pars ''Sphere'' [1]) (1 / 10 ^ 7, 0, 0) 0)"
proof (intro conjI)
  show "project_loop (initialize_pars ''Sphere'' [1]) (1 / 10 ^ 7, 0, 0) (0, 0, 0) 0 = ((1 / 10 ^ 7, 0, 0), 0)"
    by (intro project_loop_stop) simp
  show "0 < snd (claimed_project_loop (initialize_pars ''Sphere'' [1]) (1 / 10 ^ 7, 0, 0) 0)"
    by (rule claimed_loop_progress)
qed

lemma unit_sphere_step:
  "newton_step (initialize_pars ''Sphere'' [1]) (1, 0, 0) = (1, 0, 0)"
  by (simp add: newton_step_def initialize_pars_def call_def)

theorem projection_amended_witness:
  "n_iterations (initialize_pars ''Sphere'' [1]) (1, 0, 0) = 1 \<and>
   project_onto_potential (1, 0, 0) (initialize_pars ''Sphere'' [1]) =
     (vertex_from_pot (1, 0, 0) (initialize_pars ''Sphere'' [1]), False)"
proof -
  let ?pp = "initialize_pars ''Sphere'' [1]"
  let ?r0 = "(1, 0, 0) :: vec3"
  let ?m = "n_iterations ?pp ?r0"
  note a = projection_amended[of ?pp ?r0]
  have i1: "iterate ?pp ?r0 (Suc 0) = (1, 0, 0)"
    by (simp add: iterate_def unit_sphere_step)
  have d0: "\<forall>i\<le>0. sq_dist (iterate ?pp ?r0 i) (previous ?pp ?r0 i) > 1 / 10 ^ 12"
    by (simp add: iterate_def previous_def)
  have d1: "sq_dist (iterate ?pp ?r0 (Suc 0)) (previous ?pp ?r0 (Suc 0)) < 1 / 10 ^ 12"
    by (simp add: previous_def iterate_def unit_sphere_step)
  have "?m \<le> Suc 0" using a d1 by blast
  moreover have "0 < ?m" using a d0 by (metis zero_less_numeral)
  ultimately have k: "?m = Suc 0" by simp
  from a have "project_onto_potential ?r0 ?pp = (vertex_from_pot (iterate ?pp ?r0 ?m) ?pp, 90 \<le> ?m)"
    by blast
  then have "project_onto_potential ?r0 ?pp = (vertex_from_pot (1, 0, 0) ?pp, False)"
    unfolding k i1 by simp
  with k show ?thesis by simp
qed

subsection \<open>The tangent of a surface vertex\<close>

text \<open>
  Claim C1.  The specification chooses the first tangent by the absolute values of
  \<open>n\<^sub>x\<close> and \<open>n\<^sub>y\<close>; the code compares the signed components.  At the point
  \<open>(-1, 0, 0)\<close> of the unit sphere the normal is \<open>(-1, 0, 0)\<close>: the code takes the second
  branch and returns \<open>t1 = (0, 0, -1)\<close>, the stated rule gives \<open>(0, 1, 0)\<close>.  At the point
  \<open>(0, -1, 0)\<close> the normal is \<open>(0, -1, 0)\<close>: the code takes the second branch again, whose
  divisor \<open>sqrt (n\<^sub>x\<^sup>2 + n\<^sub>z\<^sup>2)\<close> is zero there, where the stated rule gives
  \<open>(-1, 0, 0)\<close>.
\<close>

theorem tangent_branch_signed:
  "n (vertex_from_pot (- 1, 0, 0) (initialize_pars ''Sphere'' [1])) = (- 1, 0, 0) \<and>
   t1 (vertex_from_pot (- 1, 0, 0) (initialize_pars ''Sphere'' [1])) = (0, 0, - 1) \<and>
   tangent1 (- 1, 0, 0) = (0, 0, - 1) \<and>
   tangent1_claimed (- 1, 0, 0) = (0, 1, 0) \<and>
   n (vertex_from_pot (0, - 1, 0) (initialize_pars ''Sphere'' [1])) = (0, - 1, 0) \<and>
   tangent1 (0, - 1, 0) = (- 0 / sqrt (0*0 + 0*0), 0, 0 / sqrt (0*0 + 0*0)) \<and>
   sqrt (0*0 + 0*0) = (0::real) \<and>
   tangent1_claimed (0, - 1, 0) = (- 1, 0, 0)"
  by (simp add: vertex_from_pot_def initialize_pars_def call_def Let_def)

subsection \<open>The Python entry point\<close>

lemma check_potential_names:
  "check_potential potential npars ipars = Inr res \<Longrightarrow>
   potential \<in> {''Sphere'', ''BinaryRoche'', ''MisalignedBinaryRoche'', ''RotateRoche'',
                  ''Torus'', ''Heart''}"
  unfolding check_potential_def Let_def by (auto split: if_splits)

lemma check_potential_errors:
  "check_potential potential npars ipars \<noteq> Inl (ValueError ''Not enough parameters.'')"
  unfolding check_potential_def Let_def by (simp split: if_splits)

lemma as_double_errors: "as_double a \<noteq> Inl (ValueError s)"
  by (cases a) simp_all

lemma as_doubles_errors: "as_doubles xs \<noteq> Inl (ValueError s)"
  by (induction xs) (auto simp add: as_double_errors split: sum.splits)

lemma as_doubles_length: "as_doubles xs = Inr vals \<Longrightarrow> length vals = length xs"
  by (induction xs arbitrary: vals) (auto split: sum.splits)

lemma PyArg_ParseTuple_errors:
  "PyArg_ParseTuple args \<noteq> Inl (ValueError s)"
proof -
  have "as_int a \<noteq> Inl (ValueError s)" for a
    by (cases a) simp_all
  then show ?thesis
    unfolding PyArg_ParseTuple_def
    by (auto simp add: as_double_errors as_doubles_errors split: option.splits sum.splits)
qed

lemma PyArg_ParseTuple_length:
  "PyArg_ParseTuple args = Inr (delta, mt, potential, vals) \<Longrightarrow> length vals = length args - 3"
  unfolding PyArg_ParseTuple_def
  by (auto simp add: as_doubles_length split: if_splits option.splits sum.splits)

lemma discretize_args_not_enough:
  "discretize_args args = Inl (ValueError ''Not enough parameters.'') \<longleftrightarrow> length args < 4"
proof (cases "length args < 4")
  case True
  then show ?thesis by (simp add: discretize_args_def)
next
  case False
  have "discretize_args args \<noteq> Inl (ValueError ''Not enough parameters.'')"
  proof (cases "PyArg_ParseTuple args")
    case (Inl e)
    with False PyArg_ParseTuple_errors[of args "''Not enough parameters.''"] show ?thesis
      by (simp add: discretize_args_def)
  next
    case (Inr v)
    obtain delta mt potential vals where v: "v = (delta, mt, potential, vals)"
      by (cases v) auto
    show ?thesis
      using False Inr v
        check_potential_errors[of potential "int (length args)" "vals @ replicate (6 - length vals) 0"]
      by (auto simp add: discretize_args_def Let_def split: sum.splits prod.splits)
  qed
  with False show ?thesis by simp
qed

lemma discretize_error: "discretize args = Inl e \<longleftrightarrow> discretize_args args = Inl e"
  by (simp add: discretize_def split: sum.splits prod.splits)

lemma heart_arity:
  assumes "4 \<le> length args" "PyArg_ParseTuple args = Inr (delta, mt, ''Heart'', vals)"
  shows "discretize_args args =
           (if length args = 4 then Inr (delta, mt, ''Heart'', vals)
            else Inl (ValueError ''Wrong number of parameters for this type of potential.''))"
proof -
  have l: "length vals = length args - 3" using assms(2) by (rule PyArg_ParseTuple_length)
  show ?thesis
  proof (cases "length args = 4")
    case True
    then have "length vals = 1" using l by simp
    then have "take (Suc 0) (vals @ replicate 5 0) = vals" by simp
    then show ?thesis
      using True assms(2) by (simp add: discretize_args_def check_potential_def)
  next
    case False
    then show ?thesis
      using assms by (simp add: discretize_args_def check_potential_def)
  qed
qed

text \<open>
  Claim C3 as stated fails: the call with exactly the three arguments
  \<open>(0.1, 0, "Heart")\<close> raises the error \<open>Not enough parameters\<close>.
\<close>

theorem heart_three_arguments_counterexample:
  "discretize [PyFloat 0.1, PyInt 0, PyString ''Heart''] = Inl (ValueError ''Not enough parameters.'')"
  by (simp add: discretize_def discretize_args_def)

text \<open>
  Claim C3, as amended.  The entry point raises \<open>Not enough parameters\<close> exactly when
  fewer than four positional arguments are supplied, that is when nothing follows the
  three mandatory arguments.  In particular every call with exactly three arguments, the
  third being \<open>"Heart"\<close>, raises it: the code wants exactly one argument after the name
  \<open>Heart\<close>.  A call with four or more arguments that \<open>PyArg_ParseTuple\<close> accepts and
  whose name is \<open>Heart\<close> reaches the core when it has exactly four arguments, and raises
  \<open>Wrong number of parameters for this type of potential\<close> otherwise.
\<close>

theorem not_enough_parameters_amended:
  "(discretize args = Inl (ValueError ''Not enough parameters.'') \<longleftrightarrow> length args < 4) \<and>
   discretize [a, b, PyString ''Heart''] = Inl (ValueError ''Not enough parameters.'') \<and>
   (4 \<le> length args \<and> PyArg_ParseTuple args = Inr (delta, mt, ''Heart'', vals) \<longrightarrow>
      discretize args =
        (if length args = 4 then Inr (cdiscretize delta mt ''Heart'' vals)
         else Inl (ValueError ''Wrong number of parameters for this type of potential.'')))"
proof (intro conjI impI)
  show "discretize args = Inl (ValueError ''Not enough parameters.'') \<longleftrightarrow> length args < 4"
    by (simp only: discretize_error discretize_args_not_enough)
  show "discretize [a, b, PyString ''Heart''] = Inl (ValueError ''Not enough parameters.'')"
    by (simp add: discretize_def discretize_args_def)
  assume "4 \<le> length args \<and> PyArg_ParseTuple args = Inr (delta, mt, ''Heart'', vals)"
  then have "discretize_args args =
           (if length args = 4 then Inr (delta, mt, ''Heart'', vals)
            else Inl (ValueError ''Wrong number of parameters for this type of potential.''))"
    by (intro heart_arity) simp_all
  then show "discretize args =
        (if length args = 4 then Inr (cdiscretize delta mt ''Heart'' vals)
         else Inl (ValueError ''Wrong number of parameters for this type of potential.''))"
    by (simp add: discretize_def)
qed

theorem not_enough_parameters_amended_witness:
  "discretize [PyFloat 0.1, PyInt 0, PyString ''Heart'', PyFloat 0]
     = Inr (cdiscretize 0.1 0 ''Heart'' [0]) \<and>
   discretize [PyFloat 0.1, PyInt 0, PyString ''Heart'', PyFloat 0, PyFloat 0]
     = Inl (ValueError ''Wrong number of parameters for this type of potential.'') \<and>
   discretize [PyFloat 0.1, PyInt 0, PyString ''Heart'']
     = Inl (ValueError ''Not enough parameters.'')"
proof -
  let ?a4 = "[PyFloat 0.1, PyInt 0, PyString ''Heart'', PyFloat 0]"
  let ?a5 = "[PyFloat 0.1, PyInt 0, PyString ''Heart'', PyFloat 0, PyFloat 0]"
  have h4: "4 \<le> length ?a4 \<and> PyArg_ParseTuple ?a4 = Inr (0.1, 0, ''Heart'', [0])"
    by (simp add: PyArg_ParseTuple_def)
  have h5: "4 \<le> length ?a5 \<and> PyArg_ParseTuple ?a5 = Inr (0.1, 0, ''Heart'', [0, 0])"
    by (simp add: PyArg_ParseTuple_def)
  from not_enough_parameters_amended[of ?a4 "PyFloat 0.1" "PyInt 0" "0.1" 0 "[0]"] h4
  have 1: "discretize ?a4 = Inr (cdiscretize 0.1 0 ''Heart'' [0])" by simp
  from not_enough_parameters_amended[of ?a5 "PyFloat 0.1" "PyInt 0" "0.1" 0 "[0, 0]"] h5
  have 2: "discretize ?a5 = Inl (ValueError ''Wrong number of parameters for this type of potential.'')"
    by simp
  from not_enough_parameters_amended[of ?a4 "PyFloat 0.1" "PyInt 0" "0.1" 0 "[0]"]
  have 3: "discretize [PyFloat 0.1, PyInt 0, PyString ''Heart''] = Inl (ValueError ''Not enough parameters.'')"
    by blast
  from 1 2 3 show ?thesis by blast
qed

lemma unknown_name_unassigned:
  "potential \<notin> {''Sphere'', ''BinaryRoche'', ''MisalignedBinaryRoche'', ''RotateRoche'',
                  ''Torus'', ''Heart''} \<Longrightarrow>
   initialize_pars potential a = \<lparr>p = a, pot = None, dx = None, dy = None, dz = None\<rparr>"
  by (simp add: initialize_pars_def)

text \<open>
  Claim C10.  Whenever \<open>discretize\<close> reaches the call of \<open>cdiscretize\<close>, the potential
  name it passes is one of the six registered names, so \<open>initialize_pars\<close> has assigned
  all four function pointers of the descriptor; the descriptor with unassigned pointers
  is returned for the other names only (\<open>unknown_name_unassigned\<close>).
\<close>

theorem core_gets_registered_name:
  assumes "discretize_args args = Inr (delta, mt, potential, pars)"
  shows "discretize args = Inr (cdiscretize delta mt potential pars) \<and>
         potential \<in> {''Sphere'', ''BinaryRoche'', ''MisalignedBinaryRoche'', ''RotateRoche'',
                        ''Torus'', ''Heart''} \<and>
         pot (initialize_pars potential pars) \<noteq> None \<and>
         dx (initialize_pars potential pars) \<noteq> None \<and>
         dy (initialize_pars potential pars) \<noteq> None \<and>
         dz (initialize_pars potential pars) \<noteq> None"
proof -
  have 1: "discretize args = Inr (cdiscretize delta mt potential pars)"
    using assms by (simp add: discretize_def)
  have 2: "potential \<in> {''Sphere'', ''BinaryRoche'', ''MisalignedBinaryRoche'', ''RotateRoche'',
                        ''Torus'', ''Heart''}"
    using assms check_potential_names
    unfolding discretize_args_def Let_def
    by (auto split: if_splits sum.splits prod.splits)
  have 3: "pot (initialize_pars potential pars) \<noteq> None \<and>
         dx (initialize_pars potential pars) \<noteq> None \<and>
         dy (initialize_pars potential pars) \<noteq> None \<and>
         dz (initialize_pars potential pars) \<noteq> None"
    using 2 by (auto simp add: initialize_pars_def)
  from 1 2 3 show ?thesis by blast
qed

theorem core_gets_registered_name_witness:
  "discretize [PyFloat 0.1, PyInt 50, PyString ''Sphere'', PyFloat 1]
     = Inr (cdiscretize 0.1 50 ''Sphere'' [1]) \<and>
   pot (initialize_pars ''Sphere'' [1]) \<noteq> None"
proof -
  have h: "discretize_args [PyFloat 0.1, PyInt 50, PyString ''Sphere'', PyFloat 1]
             = Inr (0.1, 50, ''Sphere'', [1])"
    by (simp add: discretize_args_def PyArg_ParseTuple_def check_potential_def)
  from core_gets_registered_name[OF h] show ?thesis by blast
qed

subsection \<open>Interior angles and the wedge division\<close>

text \<open>The macro \<open>PI\<close> lies above \<open>pi\<close>: Machin's formula with the alternating series of
  the arc tangent.\<close>

lemma arctan_series_bounds:
  fixes x :: real
  assumes "0 \<le> x" "x \<le> 1"
  shows "(\<Sum>i<2*k. (-1)^i * (1 / real (i * 2 + 1) * x ^ (i * 2 + 1))) \<le> arctan x"
    and "arctan x \<le> (\<Sum>i<2*k+1. (-1)^i * (1 / real (i * 2 + 1) * x ^ (i * 2 + 1)))"
proof -
  let ?a = "\<lambda>i. 1 / real (i * 2 + 1) * x ^ (i * 2 + 1)"
  have ax: "\<bar>x\<bar> \<le> 1" using assms by simp
  have zero: "?a \<longlonglongrightarrow> 0" by (rule zeroseq_arctan_series[OF ax])
  have pos: "0 \<le> ?a i" for i using assms by simp
  have mono: "?a (Suc i) \<le> ?a i" for i
  proof -
    have e: "x ^ (Suc i * 2 + 1) = x ^ (i * 2 + 1) * x ^ 2" by (simp add: power_add power2_eq_square)
    have "x ^ 2 \<le> 1" using assms by (simp add: power_le_one)
    moreover have "0 \<le> x ^ (i * 2 + 1)" using assms by simp
    ultimately have "x ^ (i * 2 + 1) * x ^ 2 \<le> x ^ (i * 2 + 1)" by (rule mult_left_le)
    then have "x ^ (Suc i * 2 + 1) \<le> x ^ (i * 2 + 1)" by (simp only: e)
    moreover have "1 / real (Suc i * 2 + 1) \<le> 1 / real (i * 2 + 1)"
      by (simp add: frac_le)
    ultimately show ?thesis
      using assms by (intro mult_mono) simp_all
  qed
  have eq: "arctan x = (\<Sum>i. (-1)^i * ?a i)" by (rule arctan_series[OF ax])
  show "(\<Sum>i<2*k. (-1)^i * ?a i) \<le> arctan x"
    unfolding eq by (rule summable_Leibniz'(2)[OF zero pos mono])
  show "arctan x \<le> (\<Sum>i<2*k+1. (-1)^i * ?a i)"
    unfolding eq by (rule summable_Leibniz'(4)[OF zero pos mono])
qed

lemma arctan_fifth_upper: "arctan (1/5) \<le> 0.197395559849884"
proof -
  have "arctan (1/5) \<le> (\<Sum>i<2*4+1. (-1)^i * (1 / real (i * 2 + 1) * (1/5) ^ (i * 2 + 1)))"
    by (rule arctan_series_bounds(2)) simp_all
  also have "\<dots> \<le> 0.197395559849884"
    by (simp add: lessThan_nat_numeral lessThan_Suc power_divide)
  finally show ?thesis .
qed

lemma arctan_239_lower: "0.004184076002074 \<le> arctan (1/239)"
proof -
  have "(\<Sum>i<2*2. (-1)^i * (1 / real (i * 2 + 1) * (1/239) ^ (i * 2 + 1))) \<le> arctan (1/239)"
    by (rule arctan_series_bounds(1)) simp_all
  moreover have "0.004184076002074 \<le> (\<Sum>i<2*2. (-1)^i * (1 / real (i * 2 + 1) * (1/239) ^ (i * 2 + 1)))"
    by (simp add: lessThan_nat_numeral lessThan_Suc power_divide)
  ultimately show ?thesis by linarith
qed

lemma pi_less_PI: "pi < PI"
proof -
  have "pi = 16 * arctan (1/5) - 4 * arctan (1/239)" using machin by simp
  also have "\<dots> \<le> 16 * 0.197395559849884 - 4 * 0.004184076002074"
    using arctan_fifth_upper arctan_239_lower by (intro diff_mono mult_left_mono) simp_all
  also have "\<dots> < PI" by (simp add: PI_def)
  finally show ?thesis .
qed

lemma atan2_bounds: "- pi < atan2 y x \<and> atan2 y x \<le> pi"
proof -
  have b: "- (pi / 2) < arctan (y / x)" "arctan (y / x) < pi / 2"
    by (rule arctan_lbound, rule arctan_ubound)
  have pos: "0 < pi" by simp
  consider "0 < x" | "x < 0" "0 \<le> y" | "x < 0" "y < 0" | "x = 0" "0 < y" | "x = 0" "y < 0"
    | "x = 0" "y = 0" by linarith
  then show ?thesis
  proof cases
    case 1
    then have "atan2 y x = arctan (y / x)" by (simp add: atan2_def)
    with b pos show ?thesis by linarith
  next
    case 2
    then have "y / x \<le> 0" by (simp add: divide_nonneg_neg)
    then have "arctan (y / x) \<le> 0" by (simp only: arctan_le_zero_iff)
    moreover have "atan2 y x = arctan (y / x) + pi" using 2 by (simp add: atan2_def)
    ultimately show ?thesis using b pos by linarith
  next
    case 3
    then have "0 < y / x" by (simp add: divide_neg_neg)
    then have "0 < arctan (y / x)" by (simp only: zero_less_arctan_iff)
    moreover have "atan2 y x = arctan (y / x) - pi" using 3 by (simp add: atan2_def)
    ultimately show ?thesis using b pos by linarith
  next
    case 4
    then have "atan2 y x = pi / 2" by (simp add: atan2_def)
    with pos show ?thesis by linarith
  next
    case 5
    then have "atan2 y x = - (pi / 2)" by (simp add: atan2_def)
    with pos show ?thesis by linarith
  next
    case 6
    with pos show ?thesis by (simp add: atan2_def)
  qed
qed

lemma fmod_nonneg:
  assumes "0 \<le> x" "0 < y"
  shows "0 \<le> fmod x y"
proof -
  have q: "0 \<le> x / y" using assms by simp
  then have "of_int (trunc (x / y)) \<le> x / y" by (simp add: trunc_def)
  then have "y * of_int (trunc (x / y)) \<le> y * (x / y)"
    using assms(2) by (intro mult_left_mono) simp_all
  also have "\<dots> = x" using assms(2) by simp
  finally show ?thesis by (simp add: fmod_def)
qed

lemma omega_at_nonneg: "0 \<le> omega_at Pl i"
proof -
  have PI: "0 < PI" "pi < PI" using pi_less_PI pi_gt_zero by linarith+
  have adj: "0 \<le> (if a - b < 0 then a - b + 2 * PI else a - b)"
    if "- pi < a" "b \<le> pi" for a b :: real
    using that PI by (simp; linarith)
  show ?thesis
    unfolding omega_at_def Let_def
    by (intro fmod_nonneg adj) (simp_all add: atan2_bounds PI)
qed

lemma min_angle_nonneg:
  assumes "P st \<noteq> []"
  shows "0 \<le> min_angle st"
proof -
  let ?omega = "map (omega_at (P st)) [0..<length (P st)]"
  have "argmin ?omega (length (P st)) < length (P st)"
    using assms by (intro argmin_bound) simp
  then have "min_angle st = omega_at (P st) (argmin ?omega (length (P st)))"
    by (simp add: min_angle_def Let_def)
  then show ?thesis by (simp add: omega_at_nonneg)
qed

lemma pi_greater_3: "3 < pi"
proof -
  have "(\<Sum>i<2*1. (-1)^i * (1 / real (i * 2 + 1) * (1/5) ^ (i * 2 + 1))) \<le> arctan (1/5)"
    by (rule arctan_series_bounds(1)) simp_all
  moreover have "(0.1973::real) \<le> (\<Sum>i<2*1. (-1)^i * (1 / real (i * 2 + 1) * (1/5) ^ (i * 2 + 1)))"
    by (simp add: lessThan_nat_numeral lessThan_Suc power_divide)
  ultimately have l: "0.1973 \<le> arctan (1/5)" by linarith
  have "arctan (1/239) \<le> (\<Sum>i<2*0+1. (-1)^i * (1 / real (i * 2 + 1) * (1/239) ^ (i * 2 + 1)))"
    by (rule arctan_series_bounds(2)) simp_all
  also have "\<dots> \<le> 0.0042"
    by (simp add: lessThan_nat_numeral lessThan_Suc power_divide)
  finally have u: "arctan (1/239) \<le> 0.0042" .
  have "(3::real) < 16 * 0.1973 - 4 * 0.0042" by simp
  also have "\<dots> \<le> 16 * arctan (1/5) - 4 * arctan (1/239)"
    using l u by (intro diff_mono mult_left_mono) simp_all
  also have "\<dots> = pi" using machin by simp
  finally show ?thesis .
qed

lemma wedge_division_floor:
  assumes "0 \<le> alpha"
  shows "wedge_division alpha = wedge_division_amended alpha"
proof -
  have "0 \<le> alpha * 3 / PI" using assms by (simp add: PI_def)
  then have "trunc (alpha * 3 / PI) = \<lfloor>alpha * 3 / PI\<rfloor>" by (simp add: trunc_def)
  then show ?thesis by (simp add: wedge_division_def wedge_division_amended_def PI_def)
qed

lemma wedge_division_positive:
  assumes "0 \<le> alpha"
  shows "1 \<le> fst (wedge_division alpha)"
proof -
  have "0 \<le> alpha * 3 / PI" using assms by (simp add: PI_def)
  then have "0 \<le> trunc (alpha * 3 / PI)" by (simp add: trunc_def)
  then show ?thesis by (simp add: wedge_division_def Let_def)
qed

lemma nt_of_positive: "P st \<noteq> [] \<Longrightarrow> 1 \<le> nt_of st"
  by (simp add: nt_of_def wedge_division_positive min_angle_nonneg)

text \<open>
  Claim C7 as stated fails: the code divides by the constant \<open>PI = 3.14159265359\<close>, which
  is larger than \<open>pi\<close>.  At the angle \<open>4 * pi / 3\<close> the code computes \<open>nt = 4\<close> and
  \<open>domega = pi / 3\<close>, where the stated rule gives \<open>nt = floor 4 + 1 = 5\<close> and
  \<open>domega = 4 * pi / 15\<close>.
\<close>

theorem wedge_division_pi_counterexample:
  "wedge_division (4 * pi / 3) = (4, pi / 3) \<and>
   wedge_division_claimed (4 * pi / 3) = (5, 4 * pi / 15)"
proof
  have PIpos: "0 < PI" by (simp add: PI_def)
  have lo: "3 * PI \<le> 4 * pi" using pi_greater_3 by (simp add: PI_def)
  have hi: "4 * pi < 4 * PI" using pi_less_PI by simp
  have "3 \<le> 4 * pi / PI" using lo PIpos by (simp add: le_divide_eq)
  moreover have "4 * pi / PI < 4" using hi PIpos by (simp add: divide_less_eq)
  ultimately have "\<lfloor>4 * pi / PI\<rfloor> = 3" by linarith
  moreover have "0 \<le> 4 * pi / PI" using PIpos by simp
  ultimately have t: "trunc (4 * pi / PI) = 3" by (simp add: trunc_def)
  have e: "4 * pi / 3 * 3 / PI = 4 * pi / PI" by simp
  have d: "\<not> pi / 3 < 0.8" using pi_greater_3 by simp
  have "wedge_division (4 * pi / 3) = (4, 4 * pi / 3 / 4)"
    unfolding wedge_division_def e t using d by (simp add: Let_def)
  then show "wedge_division (4 * pi / 3) = (4, pi / 3)" by simp
  have e': "4 * pi / 3 * 3 / pi = 4" by simp
  have d': "\<not> 4 * pi / 3 / 5 < 0.8" using pi_greater_3 by simp
  have "wedge_division_claimed (4 * pi / 3) = (5, 4 * pi / 3 / 5)"
    unfolding wedge_division_claimed_def e' using d' by (simp add: Let_def)
  then show "wedge_division_claimed (4 * pi / 3) = (5, 4 * pi / 15)" by simp
qed

text \<open>
  Claim C7, as amended.  For every angle \<open>alpha\<close> that the loop selects (they are all
  non-negative), \<open>nt\<close> is \<open>floor (alpha * 3 / 3.14159265359) + 1\<close>, the divisor being the
  constant \<open>PI\<close> of the file and not the number \<open>pi\<close>, and \<open>domega\<close> is \<open>alpha / nt\<close>;
  exactly when \<open>domega < 0.8\<close> and \<open>nt > 1\<close>, \<open>nt\<close> is decremented once and \<open>domega\<close>
  becomes \<open>alpha / (nt - 1)\<close>; nothing else is adjusted.  The rule with \<open>pi\<close> gives the
  same result wherever the two floors agree.
\<close>

theorem wedge_division_macro_rule:
  "(0 \<le> alpha \<longrightarrow> wedge_division alpha = wedge_division_amended alpha) \<and>
   wedge_division (omega_at Pl i) = wedge_division_amended (omega_at Pl i) \<and>
   (P st \<noteq> [] \<longrightarrow> 0 \<le> min_angle st \<and>
      wedge_division (min_angle st) = wedge_division_amended (min_angle st)) \<and>
   (\<lfloor>alpha * 3 / pi\<rfloor> = \<lfloor>alpha * 3 / 3.14159265359\<rfloor> \<longrightarrow>
      wedge_division_claimed alpha = wedge_division_amended alpha)"
  by (simp add: wedge_division_floor omega_at_nonneg min_angle_nonneg
      wedge_division_claimed_def wedge_division_amended_def)

lemma two_vertex_front_angle:
  "min_angle \<lparr>V = vs, P = [a, b], Ts = ts, step = k, warned = w\<rparr> = 0"
proof -
  have "omega_at [a, b] 0 = 0" "omega_at [a, b] (Suc 0) = 0"
    by (simp_all add: omega_at_def Let_def fmod_def trunc_def)
  then have "map (omega_at [a, b]) [0..<length [a, b]] = [0, 0]"
    by (simp add: upt_rec)
  moreover have "argmin [0, 0] (Suc (Suc 0)) = 0"
    by (simp add: argmin_def argmin_loop.simps)
  ultimately show ?thesis by (simp add: min_angle_def Let_def)
qed

lemma wedge_division_zero: "wedge_division 0 = (1, 0)"
  by (simp add: wedge_division_def trunc_def)

theorem wedge_division_macro_rule_witness:
  "wedge_division 1.5 = (1, 1.5) \<and>
   wedge_division_claimed 1.5 = (1, 1.5) \<and>
   wedge_division (min_angle \<lparr>V = [], P = [vertex_from_pot (- 1, 0, 0) (initialize_pars ''Sphere'' [1]),
                                          vertex_from_pot (0, 0, 1) (initialize_pars ''Sphere'' [1])],
                              Ts = [], step = 0, warned = 0\<rparr>) = (1, 0)"
proof -
  let ?st = "\<lparr>V = [], P = [vertex_from_pot (- 1, 0, 0) (initialize_pars ''Sphere'' [1]),
                             vertex_from_pot (0, 0, 1) (initialize_pars ''Sphere'' [1])],
                 Ts = [], step = 0, warned = 0\<rparr>"
  note a = wedge_division_macro_rule[of "1.5" "[]" 0 ?st]
  have h1: "(0::real) \<le> 1.5" by simp
  have h2: "P ?st \<noteq> []" by simp
  have "1 \<le> 1.5 * 3 / pi" using pi_less_4 pi_gt_zero by (simp add: le_divide_eq)
  moreover have "1.5 * 3 / pi < 2" using pi_greater_3 by (simp add: divide_less_eq)
  ultimately have f: "\<lfloor>1.5 * 3 / pi\<rfloor> = 1" by linarith
  have g: "\<lfloor>1.5 * 3 / (3.14159265359::real)\<rfloor> = 1" by simp
  have c: "wedge_division_amended 1.5 = (1, 1.5)"
    by (simp add: wedge_division_amended_def)
  from a h1 have 1: "wedge_division 1.5 = wedge_division_amended 1.5" by blast
  from a f g have 2: "wedge_division_claimed 1.5 = wedge_division_amended 1.5" by simp
  from a h2 have "wedge_division (min_angle ?st) = wedge_division_amended (min_angle ?st)" by blast
  then have 3: "wedge_division (min_angle ?st) = (1, 0)"
    by (simp add: two_vertex_front_angle wedge_division_zero)
  from 1 2 3 c show ?thesis by simp
qed

subsection \<open>The marching loop\<close>

lemma fan_step_fields:
  "P (fan_step delta pp p0m va dw i st) = P st"
  "step (fan_step delta pp p0m va dw i st) = step st"
  "\<exists>t. Ts (fan_step delta pp p0m va dw i st) = Ts st @ [t]"
  "\<exists>v. V (fan_step delta pp p0m va dw i st) = V st @ [v]"
  by (simp_all add: fan_step_def Let_def triangle_array_append_def vertex_array_append_def
      split: prod.splits)

lemma fan_fold:
  "P (fold (fan_step delta pp p0m va dw) xs st) = P st \<and>
   step (fold (fan_step delta pp p0m va dw) xs st) = step st \<and>
   (\<exists>ts. Ts (fold (fan_step delta pp p0m va dw) xs st) = Ts st @ ts \<and> length ts = length xs) \<and>
   (\<exists>vs. V (fold (fan_step delta pp p0m va dw) xs st) = V st @ vs \<and> length vs = length xs)"
proof (induction xs arbitrary: st)
  case Nil
  show ?case by simp
next
  case (Cons x xs)
  let ?s = "fan_step delta pp p0m va dw x st"
  obtain t v where t: "Ts ?s = Ts st @ [t]" and v: "V ?s = V st @ [v]"
    using fan_step_fields(3,4)[of delta pp p0m va dw x st] by blast
  from Cons.IH[of ?s] obtain ts vs where
    a: "P (fold (fan_step delta pp p0m va dw) xs ?s) = P ?s"
    and b: "step (fold (fan_step delta pp p0m va dw) xs ?s) = step ?s"
    and c: "Ts (fold (fan_step delta pp p0m va dw) xs ?s) = Ts ?s @ ts" "length ts = length xs"
    and d: "V (fold (fan_step delta pp p0m va dw) xs ?s) = V ?s @ vs" "length vs = length xs"
    by blast
  have "Ts (fold (fan_step delta pp p0m va dw) (x # xs) st) = Ts st @ (t # ts)"
    using c t by simp
  moreover have "V (fold (fan_step delta pp p0m va dw) (x # xs) st) = V st @ (v # vs)"
    using d v by simp
  moreover have "length (t # ts) = length (x # xs)" "length (v # vs) = length (x # xs)"
    using c d by simp_all
  ultimately show ?case using a b by (simp add: fan_step_fields(1,2))
qed

lemma march_body_result:
  assumes "P st \<noteq> []"
  shows "\<exists>st' ts. march_body delta pp st = Some st' \<and> Ts st' = Ts st @ ts \<and>
           int (length ts) = nt_of st \<and>
           int (length (P st')) = int (length (P st)) + nt_of st - 2 \<and>
           step st' = step st"
proof -
  define omega where "omega = map (omega_at (P st)) [0..<length (P st)]"
  define minidx where "minidx = argmin omega (length (P st))"
  have mi: "minidx < length (P st)"
    unfolding minidx_def using assms by (intro argmin_bound) simp
  obtain nt domega where wd: "wedge_division (omega ! minidx) = (nt, domega)"
    by (cases "wedge_division (omega ! minidx)") blast
  have ntof: "nt_of st = nt"
    using wd by (simp add: nt_of_def min_angle_def Let_def omega_def minidx_def)
  have nt1: "1 \<le> nt" using nt_of_positive[OF assms] ntof by simp
  define p0m where "p0m = P st ! minidx"
  define va where "va = P st ! (if minidx = 0 then length (P st) - 1 else minidx - 1)"
  define vb where "vb = P st ! (if minidx < length (P st) - 1 then minidx + 1 else 0)"
  define st1 where "st1 = fold (fan_step delta pp p0m va domega) [1..<nat nt] st"
  define tri where "tri = (if nt = 1 then \<lparr>v0 = va, v1 = vb, v2 = p0m\<rparr>
                 else \<lparr>v0 = V st1 ! (length (V st1) - 1), v1 = vb, v2 = p0m\<rparr>)"
  define st2 where "st2 = st1\<lparr>Ts := triangle_array_append (Ts st1) tri\<rparr>"
  define ys where "ys = map (\<lambda>i. V st2 ! nat (int (length (V st2)) - nt + int i)) [1..<nat nt]"
  have body: "march_body delta pp st =
     (case vertex_array_drop_and_stack fresh_cell (P st2) ys minidx of
        None \<Rightarrow> None | Some Pn \<Rightarrow> Some (st2\<lparr>P := Pn\<rparr>))"
    using nt1
    unfolding march_body_def Let_def ys_def st2_def tri_def st1_def vb_def va_def p0m_def
    unfolding wd[unfolded minidx_def omega_def] minidx_def omega_def
    by (simp only: prod.case if_False not_less [symmetric] simp_thms)
  from fan_fold[of delta pp p0m va domega "[1..<nat nt]" st] obtain ts where
    P1: "P st1 = P st" and s1: "step st1 = step st"
    and T1: "Ts st1 = Ts st @ ts" "length ts = length [1..<nat nt]"
    unfolding st1_def by blast
  have P2: "P st2 = P st" and s2: "step st2 = step st"
    and T2: "Ts st2 = Ts st @ (ts @ [tri])"
    by (simp_all add: st2_def P1 s1 T1 triangle_array_append_def)
  have lts: "int (length (ts @ [tri])) = nt" using T1(2) nt1 by simp
  have lys: "int (length ys) = nt - 1" using nt1 by (simp add: ys_def)
  have "vertex_array_drop_and_stack fresh_cell (P st2) ys minidx
          = Some (take minidx (P st) @ ys @ drop (Suc minidx) (P st))"
    unfolding P2 using mi by (rule drop_and_stack_list)
  then have res: "march_body delta pp st
          = Some (st2\<lparr>P := take minidx (P st) @ ys @ drop (Suc minidx) (P st)\<rparr>)"
    by (simp add: body)
  have "int (length (take minidx (P st) @ ys @ drop (Suc minidx) (P st)))
          = int (length (P st)) + nt - 2"
    using mi lys by simp
  with res T2 lts s2 show ?thesis unfolding ntof by simp
qed

lemma march_stop_empty: "P st = [] \<Longrightarrow> march delta mt pp st = Some st"
  by (subst march.simps) simp

lemma march_stop_break:
  "P st \<noteq> [] \<Longrightarrow> 0 < mt \<Longrightarrow> mt < step st + 1 \<Longrightarrow>
   march delta mt pp st = Some (st\<lparr>step := step st + 1\<rparr>)"
  by (subst march.simps) (simp add: Let_def)

lemma march_continue:
  "P st \<noteq> [] \<Longrightarrow> \<not> (0 < mt \<and> mt < step st + 1) \<Longrightarrow>
   march_body delta pp (st\<lparr>step := step st + 1\<rparr>) = Some st2 \<Longrightarrow>
   march delta mt pp st = march delta mt pp st2"
  by (subst march.simps) (auto simp add: Let_def)

lemma nt_of_step [simp]: "nt_of (st\<lparr>step := k\<rparr>) = nt_of st"
  by (simp add: nt_of_def min_angle_def)

lemma march_append_only:
  assumes "march delta0 mt0 pp0 st0 = Some st'"
  shows "\<exists>ts. Ts st' = Ts st0 @ ts"
proof (rule march.raw_induct[where P = "\<lambda>delta mt pp st y. \<exists>ts. Ts y = Ts st @ ts", OF _ assms],
    goal_cases)
  case (1 march' delta mt pp st y)
  show ?case
  proof (cases "P st = []")
    case True
    with 1(2) show ?thesis by simp
  next
    case False
    let ?st1 = "st\<lparr>step := step st + 1\<rparr>"
    show ?thesis
    proof (cases "0 < mt \<and> mt < step ?st1")
      case True
      with False 1(2) show ?thesis by (auto simp add: Let_def)
    next
      case cont: False
      have ne: "P ?st1 \<noteq> []" using False by simp
      from march_body_result[OF ne, of delta pp] obtain st2 ts where
        b: "march_body delta pp ?st1 = Some st2" and t: "Ts st2 = Ts ?st1 @ ts" by blast
      from 1(2) False cont b have "march' delta mt pp st2 = Some y" by (auto simp add: Let_def)
      from 1(1)[OF this] obtain ts' where "Ts y = Ts st2 @ ts'" by blast
      with t show ?thesis by simp
    qed
  qed
qed

lemma two_vertex_front_nt: "nt_of \<lparr>V = vs, P = [a, b], Ts = ts, step = k, warned = w\<rparr> = 1"
  by (simp add: nt_of_def two_vertex_front_angle wedge_division_zero)

text \<open>
  Claim C8.  Every iteration of the marching loop (the counter is incremented, the bound
  is passed and the body runs on a non-empty front) appends exactly \<open>nt\<close> triangles to
  \<open>Ts\<close>, with \<open>nt \<ge> 1\<close>, and changes the size of the front by exactly \<open>nt - 2\<close>.  The
  triangles already in \<open>Ts\<close> stay where they are and as they are, in one iteration and
  over a whole run of the loop.
\<close>

theorem march_iteration_counts:
  "(P st \<noteq> [] \<longrightarrow>
      (\<exists>st'. march_body delta pp (st\<lparr>step := step st + 1\<rparr>) = Some st' \<and> 1 \<le> nt_of st \<and>
         take (length (Ts st)) (Ts st') = Ts st \<and>
         int (length (Ts st')) = int (length (Ts st)) + nt_of st \<and>
         int (length (P st')) = int (length (P st)) + nt_of st - 2)) \<and>
   (march delta mt pp st = Some st'' \<longrightarrow>
      take (length (Ts st)) (Ts st'') = Ts st \<and> length (Ts st) \<le> length (Ts st''))"
proof (intro conjI impI)
  assume ne: "P st \<noteq> []"
  then have ne': "P (st\<lparr>step := step st + 1\<rparr>) \<noteq> []" by simp
  from march_body_result[OF ne', of delta pp] obtain st' ts where
    "march_body delta pp (st\<lparr>step := step st + 1\<rparr>) = Some st'" "Ts st' = Ts st @ ts"
    "int (length ts) = nt_of st" "int (length (P st')) = int (length (P st)) + nt_of st - 2"
    by auto
  moreover have "1 \<le> nt_of st" using ne by (rule nt_of_positive)
  ultimately show "\<exists>st'. march_body delta pp (st\<lparr>step := step st + 1\<rparr>) = Some st' \<and> 1 \<le> nt_of st \<and>
         take (length (Ts st)) (Ts st') = Ts st \<and>
         int (length (Ts st')) = int (length (Ts st)) + nt_of st \<and>
         int (length (P st')) = int (length (P st)) + nt_of st - 2"
    by simp
next
  assume "march delta mt pp st = Some st''"
  then obtain ts where "Ts st'' = Ts st @ ts" using march_append_only by blast
  then show "take (length (Ts st)) (Ts st'') = Ts st" "length (Ts st) \<le> length (Ts st'')"
    by simp_all
qed

lemma two_vertex_front_body:
  "march_body delta pp \<lparr>V = vs, P = [a, b], Ts = ts, step = k, warned = w\<rparr>
     = Some \<lparr>V = vs, P = [b], Ts = ts @ [\<lparr>v0 = b, v1 = b, v2 = a\<rparr>], step = k, warned = w\<rparr>"
proof -
  let ?st = "\<lparr>V = vs, P = [a, b], Ts = ts, step = k, warned = w\<rparr>"
  have o: "omega_at [a, b] 0 = 0" "omega_at [a, b] (Suc 0) = 0"
    by (simp_all add: omega_at_def Let_def fmod_def trunc_def)
  then have m: "map (omega_at (P ?st)) [0..<length (P ?st)] = [0, 0]"
    by (simp add: upt_rec)
  have am: "argmin [0, 0] (length (P ?st)) = 0"
    by (simp add: argmin_def argmin_loop.simps)
  have wd: "wedge_division ([0, 0] ! 0) = (1, 0)"
    by (simp add: wedge_division_zero)
  have d: "vertex_array_drop_and_stack fresh_cell [a, b] [] 0 = Some [b]"
    using drop_and_stack_list[of 0 "[a, b]" fresh_cell "[]"] by simp
  show ?thesis
    unfolding march_body_def Let_def m am wd
    by (simp add: d triangle_array_append_def)
qed

theorem march_iteration_counts_witness:
  "nt_of \<lparr>V = [], P = [vertex_from_pot (- 1, 0, 0) (initialize_pars ''Sphere'' [1]),
                        vertex_from_pot (0, 0, 1) (initialize_pars ''Sphere'' [1])],
            Ts = [], step = 50, warned = 0\<rparr> = 1 \<and>
   march_body 0.1 (initialize_pars ''Sphere'' [1])
       \<lparr>V = [], P = [vertex_from_pot (- 1, 0, 0) (initialize_pars ''Sphere'' [1]),
                       vertex_from_pot (0, 0, 1) (initialize_pars ''Sphere'' [1])],
        Ts = [], step = 51, warned = 0\<rparr>
     = Some \<lparr>V = [], P = [vertex_from_pot (0, 0, 1) (initialize_pars ''Sphere'' [1])],
               Ts = [\<lparr>v0 = vertex_from_pot (0, 0, 1) (initialize_pars ''Sphere'' [1]),
                       v1 = vertex_from_pot (0, 0, 1) (initialize_pars ''Sphere'' [1]),
                       v2 = vertex_from_pot (- 1, 0, 0) (initialize_pars ''Sphere'' [1])\<rparr>],
               step = 51, warned = 0\<rparr> \<and>
   march 0.1 50 (initialize_pars ''Sphere'' [1])
     \<lparr>V = [], P = [vertex_from_pot (- 1, 0, 0) (initialize_pars ''Sphere'' [1]),
                     vertex_from_pot (0, 0, 1) (initialize_pars ''Sphere'' [1])],
      Ts = [], step = 50, warned = 0\<rparr>
     = Some \<lparr>V = [], P = [vertex_from_pot (- 1, 0, 0) (initialize_pars ''Sphere'' [1]),
                           vertex_from_pot (0, 0, 1) (initialize_pars ''Sphere'' [1])],
               Ts = [], step = 51, warned = 0\<rparr>"
proof -
  let ?pp = "initialize_pars ''Sphere'' [1]"
  let ?st = "\<lparr>V = [], P = [vertex_from_pot (- 1, 0, 0) ?pp, vertex_from_pot (0, 0, 1) ?pp],
                 Ts = [], step = 50, warned = 0\<rparr>"
  have h1: "P ?st \<noteq> []" by simp
  have "march 0.1 50 ?pp ?st = Some (?st\<lparr>step := step ?st + 1\<rparr>)"
    by (rule march_stop_break) simp_all
  then have h2: "march 0.1 50 ?pp ?st = Some (?st\<lparr>step := 51\<rparr>)" by simp
  from march_iteration_counts[of ?st "0.1" ?pp 50 "?st\<lparr>step := 51\<rparr>"] h1 h2
  obtain st' where b: "march_body 0.1 ?pp (?st\<lparr>step := step ?st + 1\<rparr>) = Some st'"
    and c: "int (length (Ts st')) = int (length (Ts ?st)) + nt_of ?st"
    by blast
  have e: "march_body 0.1 ?pp (?st\<lparr>step := step ?st + 1\<rparr>)
             = Some \<lparr>V = [], P = [vertex_from_pot (0, 0, 1) ?pp],
                      Ts = [] @ [\<lparr>v0 = vertex_from_pot (0, 0, 1) ?pp, v1 = vertex_from_pot (0, 0, 1) ?pp,
                                   v2 = vertex_from_pot (- 1, 0, 0) ?pp\<rparr>],
                      step = 50 + 1, warned = 0\<rparr>"
    using two_vertex_front_body[of "0.1" ?pp "[]" "vertex_from_pot (- 1, 0, 0) ?pp"
        "vertex_from_pot (0, 0, 1) ?pp" "[]" "50 + 1" 0]
    by simp
  with b c have "nt_of ?st = 1" by simp
  with e h2 show ?thesis by simp
qed

lemma march_returns:
  assumes "0 < mt"
  shows "step st \<le> mt \<Longrightarrow>
         \<exists>st'. march delta mt pp st = Some st' \<and>
           (P st' = [] \<or>
            (step st' = mt + 1 \<and> int (length (Ts st)) + (mt - step st) \<le> int (length (Ts st'))))"
proof (induction "nat (mt - step st)" arbitrary: st)
  case 0
  then have eq: "step st = mt" by simp
  show ?case
  proof (cases "P st = []")
    case True
    then show ?thesis by (simp add: march_stop_empty)
  next
    case False
    then have "march delta mt pp st = Some (st\<lparr>step := step st + 1\<rparr>)"
      using assms eq by (intro march_stop_break) simp_all
    then show ?thesis using eq by simp
  qed
next
  case (Suc k)
  then have lt: "step st < mt" by linarith
  show ?case
  proof (cases "P st = []")
    case True
    then show ?thesis by (simp add: march_stop_empty)
  next
    case False
    let ?st1 = "st\<lparr>step := step st + 1\<rparr>"
    have ne: "P ?st1 \<noteq> []" using False by simp
    from march_body_result[OF ne, of delta pp] obtain st2 ts where
      b: "march_body delta pp ?st1 = Some st2" and t: "Ts st2 = Ts st @ ts"
      and l: "int (length ts) = nt_of st" and s: "step st2 = step st + 1"
      by auto
    have nt: "1 \<le> nt_of st" using False by (rule nt_of_positive)
    have m: "march delta mt pp st = march delta mt pp st2"
      using False lt b by (intro march_continue) simp_all
    have "k = nat (mt - step st2)" using Suc(2) s by linarith
    moreover have "step st2 \<le> mt" using lt s by linarith
    ultimately obtain st' where r: "march delta mt pp st2 = Some st'"
      and c: "P st' = [] \<or>
            (step st' = mt + 1 \<and> int (length (Ts st2)) + (mt - step st2) \<le> int (length (Ts st')))"
      using Suc(1)[of st2] by blast
    have "int (length (Ts st)) + (mt - step st) \<le> int (length (Ts st2)) + (mt - step st2)"
      using t l nt s by simp
    with c have "P st' = [] \<or>
            (step st' = mt + 1 \<and> int (length (Ts st)) + (mt - step st) \<le> int (length (Ts st')))"
      by linarith
    with r m show ?thesis by simp
  qed
qed

lemma ring_step_fields:
  "Ts (ring_step delta pp p0 i st) = Ts st"
  "step (ring_step delta pp p0 i st) = step st"
  "length (P (ring_step delta pp p0 i st)) = length (P st) + 1"
  by (simp_all add: ring_step_def Let_def vertex_array_append_def split: prod.splits)

lemma ring_fold:
  "Ts (fold (ring_step delta pp p0) xs st) = Ts st \<and>
   step (fold (ring_step delta pp p0) xs st) = step st \<and>
   length (P (fold (ring_step delta pp p0) xs st)) = length (P st) + length xs"
  by (induction xs arbitrary: st) (simp_all add: ring_step_fields)

lemma hexagon_step_fields:
  "length (Ts (hexagon_step i st)) = length (Ts st) + 1"
  "step (hexagon_step i st) = step st"
  "P (hexagon_step i st) = P st"
  by (simp_all add: hexagon_step_def Let_def triangle_array_append_def)

lemma hexagon_fold:
  "length (Ts (fold hexagon_step xs st)) = length (Ts st) + length xs \<and>
   step (fold hexagon_step xs st) = step st \<and>
   P (fold hexagon_step xs st) = P st"
  by (induction xs arbitrary: st) (simp_all add: hexagon_step_fields)

lemma init_state_fields:
  "length (Ts (init_state delta pp)) = 6"
  "step (init_state delta pp) = - 1"
  "length (P (init_state delta pp)) = 6"
  by (simp_all add: init_state_def Let_def hexagon_fold ring_fold vertex_array_new_def
      triangle_array_new_def split: prod.splits)

lemma cdiscretize_loop_returns:
  assumes "0 < mt"
  shows "\<exists>st. cdiscretize_loop delta mt potential args = Some st \<and>
           (P st = [] \<or> (step st = mt + 1 \<and> 7 + mt \<le> int (length (Ts st))))"
proof -
  let ?pp = "initialize_pars potential args"
  have "step (init_state delta ?pp) \<le> mt" using assms by (simp add: init_state_fields)
  from march_returns[OF assms this, of delta ?pp]
  show ?thesis by (simp add: cdiscretize_loop_def Let_def init_state_fields)
qed

text \<open>
  The call \<open>discretize(0.1, 50, "Sphere", 1.0)\<close> reaches \<open>cdiscretize\<close>, the loop
  returns, and the table has one row per triangle.  The bound \<open>max_triangles\<close> is
  compared with the number of passes through the loop, not with the number of triangles:
  if the loop is left by the test of the step bound, the counter is 51, the body has run
  for the steps 0 to 50, each run has appended at least one triangle, and the table has
  at least 57 rows.  How many rows the run has, and that its front is never empty before
  step 51, depends on the values of the angles of each pass and is not established here.
\<close>

lemma sphere_50_rows:
  "\<exists>st. cdiscretize_loop 0.1 50 ''Sphere'' [1] = Some st \<and>
     discretize [PyFloat 0.1, PyInt 50, PyString ''Sphere'', PyFloat 1]
       = Inr (Some (table (initialize_pars ''Sphere'' [1]) (Ts st))) \<and>
     length (table (initialize_pars ''Sphere'' [1]) (Ts st)) = length (Ts st) \<and>
     6 \<le> length (Ts st) \<and>
     (P st = [] \<or> (step st = 51 \<and> 57 \<le> length (Ts st))) \<and>
     loop_outcome st \<noteq> (56, True)"
proof -
  from cdiscretize_loop_returns[of 50 "0.1" "''Sphere''" "[1]"] obtain st where
    st: "cdiscretize_loop 0.1 50 ''Sphere'' [1] = Some st"
    and c: "P st = [] \<or> (step st = 50 + 1 \<and> 7 + 50 \<le> int (length (Ts st)))" by auto
  have d: "discretize [PyFloat 0.1, PyInt 50, PyString ''Sphere'', PyFloat 1]
     = Inr (cdiscretize 0.1 50 ''Sphere'' [1])"
    by (simp add: discretize_def discretize_args_def PyArg_ParseTuple_def check_potential_def)
  have "march 0.1 50 (initialize_pars ''Sphere'' [1]) (init_state 0.1 (initialize_pars ''Sphere'' [1]))
          = Some st"
    using st by (simp add: cdiscretize_loop_def Let_def)
  from march_append_only[OF this] have "6 \<le> length (Ts st)"
    using init_state_fields(1)[of "0.1" "initialize_pars ''Sphere'' [1]"] by auto
  moreover have e: "P st = [] \<or> (step st = 51 \<and> 57 \<le> length (Ts st))" using c by auto
  moreover have "loop_outcome st \<noteq> (56, True)" using e by (auto simp add: loop_outcome_def)
  ultimately show ?thesis using st d by (auto simp add: cdiscretize_def table_def)
qed

end
